theory Spec2Isabelle
  imports Complex_Main "HOL-Library.Log_Nat"
begin

section \<open>JavaScript values\<close>

text \<open>
  The background script and the content script exchange JSON-shaped values and read them
  with dynamic property access. Values are modelled as a datatype, numbers as rationals
  extended with the two infinities and NaN. Every double is a rational; where the code
  computes with doubles (the quotient and the product in keywordFilterContent) the model
  rounds as IEEE 754 does, with \<open>to_double\<close> below. The alignment only compares
  numbers and takes minimum and maximum, which are exact.
\<close>

datatype jsnum = NaN | NegInf | Fin rat | PosInf

datatype jsval =
    JUndefined
  | JNull
  | JBool bool
  | JNum jsnum
  | JStr string
  | JArr "jsval list"
  | JObj "(string \<times> jsval) list"

datatype js_error =
    TypeError
  | SyntaxError
  | NetworkError string
  | ApiError jsval

text \<open>Truthiness, as \<open>||\<close>, \<open>&&\<close>, \<open>!\<close> and \<open>if\<close> read a value.\<close>

fun truthy :: "jsval \<Rightarrow> bool" where
  "truthy JUndefined = False"
| "truthy JNull = False"
| "truthy (JBool b) = b"
| "truthy (JNum n) = (n \<noteq> NaN \<and> n \<noteq> Fin 0)"
| "truthy (JStr s) = (s \<noteq> [])"
| "truthy (JArr xs) = True"
| "truthy (JObj kvs) = True"

definition js_or :: "jsval \<Rightarrow> jsval \<Rightarrow> jsval" where
  "js_or a b = (if truthy a then a else b)"

text \<open>Decimal rendering of an array index, for index access into an object.\<close>

fun digit_char :: "nat \<Rightarrow> char" where
  "digit_char n = char_of (48 + n)"

fun show_nat :: "nat \<Rightarrow> string" where
  "show_nat n = (if n < 10 then [digit_char n] else show_nat (n div 10) @ [digit_char (n mod 10)])"

text \<open>
  \<open>v.name\<close> for a property name that no prototype defines (\<open>results\<close>,
  \<open>tweetIndex\<close>, \<open>shouldFilter\<close>, \<open>confidence\<close>, \<open>matchedFilter\<close>,
  \<open>reasoning\<close>, \<open>candidates\<close>, \<open>content\<close>, \<open>parts\<close>, \<open>error\<close>,
  \<open>message\<close>): reading from \<open>null\<close> or \<open>undefined\<close> throws a TypeError, a
  primitive or an array has no such property, an object is looked up (the last duplicate
  key of a JSON text wins).
\<close>

fun get_prop :: "jsval \<Rightarrow> string \<Rightarrow> js_error + jsval" where
  "get_prop JUndefined k = Inl TypeError"
| "get_prop JNull k = Inl TypeError"
| "get_prop (JObj kvs) k = Inr (case map_of (rev kvs) k of None \<Rightarrow> JUndefined | Some v \<Rightarrow> v)"
| "get_prop v k = Inr JUndefined"

text \<open>\<open>v[i]\<close> for a non-negative integer \<open>i\<close>.\<close>

fun get_index :: "jsval \<Rightarrow> nat \<Rightarrow> js_error + jsval" where
  "get_index JUndefined i = Inl TypeError"
| "get_index JNull i = Inl TypeError"
| "get_index (JArr xs) i = Inr (if i < length xs then xs ! i else JUndefined)"
| "get_index (JStr s) i = Inr (if i < length s then JStr [s ! i] else JUndefined)"
| "get_index (JObj kvs) i = get_prop (JObj kvs) (show_nat i)"
| "get_index v i = Inr JUndefined"

text \<open>
  The builtins of the JavaScript runtime that the code calls and that are not part of
  the repository: \<open>JSON.parse\<close> (\<open>None\<close> when it throws a SyntaxError) and the
  conversion to a number of a string, an array or an object (\<open>None\<close> when the
  conversion throws). Every statement below holds for any such builtins.
\<close>

record builtins =
  json_parse :: "string \<Rightarrow> jsval option"
  to_number_object :: "jsval \<Rightarrow> jsnum option"

fun ToNumber :: "builtins \<Rightarrow> jsval \<Rightarrow> js_error + jsnum" where
  "ToNumber B JUndefined = Inr NaN"
| "ToNumber B JNull = Inr (Fin 0)"
| "ToNumber B (JBool b) = Inr (Fin (if b then 1 else 0))"
| "ToNumber B (JNum n) = Inr n"
| "ToNumber B v = (case to_number_object B v of None \<Rightarrow> Inl TypeError | Some n \<Rightarrow> Inr n)"

fun num_less :: "jsnum \<Rightarrow> jsnum \<Rightarrow> bool" where
  "num_less NaN b = False"
| "num_less a NaN = False"
| "num_less NegInf b = (b \<noteq> NegInf)"
| "num_less (Fin x) NegInf = False"
| "num_less (Fin x) (Fin y) = (x < y)"
| "num_less (Fin x) PosInf = True"
| "num_less PosInf b = False"

definition Math_max :: "jsnum \<Rightarrow> jsnum \<Rightarrow> jsnum" where
  "Math_max a b = (if a = NaN \<or> b = NaN then NaN else if num_less a b then b else a)"

definition Math_min :: "jsnum \<Rightarrow> jsnum \<Rightarrow> jsnum" where
  "Math_min a b = (if a = NaN \<or> b = NaN then NaN else if num_less b a then b else a)"

section \<open>Classification results\<close>

text \<open>
  A confidence is the template string \<open>`${x}%`\<close> of a number \<open>x\<close>; the literal
  \<open>'0%'\<close> is \<open>Percent (Fin 0)\<close>. A result built without the property has
  \<open>NoConfidence\<close>.
\<close>

datatype confidence_t = NoConfidence | Percent jsnum

text \<open>
  The text of a confidence whose number is an integer, NaN or infinite. The decimal
  rendering of a fraction is outside the model (\<open>None\<close>).
\<close>

fun show_int :: "int \<Rightarrow> string" where
  "show_int i = (if i < 0 then CHR ''-'' # show_nat (nat (- i)) else show_nat (nat i))"

fun confidence_text :: "confidence_t \<Rightarrow> string option" where
  "confidence_text NoConfidence = None"
| "confidence_text (Percent NaN) = Some ''NaN%''"
| "confidence_text (Percent NegInf) = Some ''-Infinity%''"
| "confidence_text (Percent PosInf) = Some ''Infinity%''"
| "confidence_text (Percent (Fin q)) =
     (if q = of_int \<lfloor>q\<rfloor> then Some (show_int \<lfloor>q\<rfloor> @ ''%'') else None)"

text \<open>
  \<open>details\<close> is either a value or the message of a caught error.
\<close>

datatype details_t = Details jsval | ErrorMessage js_error

record result =
  shouldFilter :: jsval
  confidence :: confidence_t
  res_method :: string
  reason :: jsval
  details :: details_t
  error :: jsval

record tweet =
  tweet_id :: nat
  index :: nat
  tweet_text :: string
  hasImages :: bool

definition MODEL_NAME :: string where
  "MODEL_NAME = ''gemini-1.5-flash-latest''"

section \<open>Response alignment (background script, analyzeBatchWithAPI, inner try block)\<close>

text \<open>\<open>apiResults.find(r => r.tweetIndex === i)\<close> on the elements of an array.\<close>

fun find_tweetIndex :: "jsval list \<Rightarrow> nat \<Rightarrow> js_error + jsval" where
  "find_tweetIndex [] i = Inr JUndefined"
| "find_tweetIndex (r # rs) i =
     (case get_prop r ''tweetIndex'' of
        Inl e \<Rightarrow> Inl e
      | Inr t \<Rightarrow> if t = JNum (Fin (of_nat i)) then Inr r else find_tweetIndex rs i)"

text \<open>Only an array has a callable \<open>find\<close>.\<close>

fun array_find :: "jsval \<Rightarrow> nat \<Rightarrow> js_error + jsval" where
  "array_find (JArr rs) i = find_tweetIndex rs i"
| "array_find v i = Inl TypeError"

definition noResult :: jsval where
  "noResult = JObj [(''shouldFilter'', JBool False), (''confidence'', JNum (Fin 0)),
                    (''reasoning'', JStr ''No result returned'')]"

text \<open>
  The operand chain \<open>find(...) || apiResults[index] || {default}\<close>, evaluated left to
  right with short circuit.
\<close>

definition select_apiResult :: "jsval \<Rightarrow> nat \<Rightarrow> js_error + jsval" where
  "select_apiResult apiResults idx =
     (case array_find apiResults (idx + 1) of
        Inl e \<Rightarrow> Inl e
      | Inr found \<Rightarrow>
          if truthy found then Inr found
          else (case get_index apiResults idx of
                  Inl e \<Rightarrow> Inl e
                | Inr byPos \<Rightarrow> if truthy byPos then Inr byPos else Inr noResult))"

text \<open>The object literal the map callback returns for one selected entry.\<close>

definition build_result :: "builtins \<Rightarrow> jsval \<Rightarrow> js_error + result" where
  "build_result B apiResult =
     (case get_prop apiResult ''shouldFilter'' of
        Inl e \<Rightarrow> Inl e
      | Inr sf \<Rightarrow>
     (case get_prop apiResult ''confidence'' of
        Inl e \<Rightarrow> Inl e
      | Inr c \<Rightarrow>
     (case ToNumber B (js_or c (JNum (Fin 50))) of
        Inl e \<Rightarrow> Inl e
      | Inr n \<Rightarrow>
     (case get_prop apiResult ''matchedFilter'' of
        Inl e \<Rightarrow> Inl e
      | Inr mf \<Rightarrow>
     (case get_prop apiResult ''reasoning'' of
        Inl e \<Rightarrow> Inl e
      | Inr rs \<Rightarrow>
          Inr \<lparr> shouldFilter = js_or sf (JBool False),
                confidence = Percent (Math_min (Fin 100) (Math_max (Fin 1) n)),
                res_method = MODEL_NAME @ '' Batch API'',
                reason = js_or mf (JStr ''No filter matched''),
                details = Details (js_or rs (JStr ''Batch analysis completed'')),
                error = JUndefined \<rparr>)))))"

definition process_one :: "builtins \<Rightarrow> jsval \<Rightarrow> nat \<Rightarrow> js_error + result" where
  "process_one B apiResults idx =
     (case select_apiResult apiResults idx of
        Inl e \<Rightarrow> Inl e
      | Inr apiResult \<Rightarrow> build_result B apiResult)"

text \<open>
  \<open>tweets.map((tweet, index) => ...)\<close> with a callback that may throw: the callback
  runs once per element, in order, and the first exception leaves the map.
\<close>

fun map_index :: "(nat \<Rightarrow> 'e + 'b) \<Rightarrow> nat \<Rightarrow> 'a list \<Rightarrow> 'e + 'b list" where
  "map_index f i [] = Inr []"
| "map_index f i (x # xs) =
     (case f i of
        Inl e \<Rightarrow> Inl e
      | Inr y \<Rightarrow> (case map_index f (Suc i) xs of Inl e \<Rightarrow> Inl e | Inr ys \<Rightarrow> Inr (y # ys)))"

definition parseErrorResult :: result where
  "parseErrorResult =
     \<lparr> shouldFilter = JBool False,
       confidence = Percent (Fin 0),
       res_method = MODEL_NAME @ '' Batch API - Parse Error'',
       reason = JStr ''JSON parsing failed'',
       details = Details (JStr ''API returned invalid JSON format''),
       error = JUndefined \<rparr>"

text \<open>The body of the inner \<open>try\<close>: any exception inside it reaches the inner \<open>catch\<close>.\<close>

definition align_try :: "builtins \<Rightarrow> string \<Rightarrow> tweet list \<Rightarrow> js_error + result list" where
  "align_try B responseText tweets =
     (case json_parse B responseText of
        None \<Rightarrow> Inl SyntaxError
      | Some parsed \<Rightarrow>
          (case get_prop parsed ''results'' of
             Inl e \<Rightarrow> Inl e
           | Inr r \<Rightarrow> map_index (process_one B (js_or r (JArr []))) 0 tweets))"

definition align :: "builtins \<Rightarrow> string \<Rightarrow> tweet list \<Rightarrow> result list" where
  "align B responseText tweets =
     (case align_try B responseText tweets of
        Inr processedResults \<Rightarrow> processedResults
      | Inl parseError \<Rightarrow> map (\<lambda>_. parseErrorResult) tweets)"

section \<open>Classifier gateway (background script)\<close>

text \<open>
  The request sent to the classifier: the parts of the prompt that vary with the batch
  (the numbered rule list, the numbered post list, the post count) and the output
  budget. The fixed instruction text of the prompt is not part of the model.
\<close>

record request =
  req_count :: nat
  req_filterList :: string
  req_tweetsList :: string
  maxOutputTokens :: nat

fun join :: "string \<Rightarrow> string list \<Rightarrow> string" where
  "join sep [] = []"
| "join sep [x] = x"
| "join sep (x # y # ys) = x @ sep @ join sep (y # ys)"

fun map_idx :: "(nat \<Rightarrow> 'a \<Rightarrow> 'b) \<Rightarrow> nat \<Rightarrow> 'a list \<Rightarrow> 'b list" where
  "map_idx f i [] = []"
| "map_idx f i (x # xs) = f i x # map_idx f (Suc i) xs"

definition build_request :: "tweet list \<Rightarrow> string list \<Rightarrow> request" where
  "build_request tweets filters =
     \<lparr> req_count = length tweets,
       req_filterList =
         join [CHR 0x0A] (map_idx (\<lambda>i f. show_nat (i + 1) @ ''. '' @ f) 0 filters),
       req_tweetsList =
         join [CHR 0x0A, CHR 0x0A]
           (map_idx (\<lambda>i t. ''Tweet '' @ show_nat (i + 1) @ '': '' @ [CHR 0x22] @ tweet_text t
                       @ [CHR 0x22] @ (if hasImages t then '' [Contains images]'' else [])) 0 tweets),
       maxOutputTokens = 300 + length tweets * 100 \<rparr>"

text \<open>
  What \<open>fetch\<close> gives: a rejection (network failure) or a response with its \<open>ok\<close>
  flag, its status and the result of \<open>response.json()\<close> (\<open>None\<close> when the body is
  not JSON and the call throws).
\<close>

datatype http_response = HttpResponse (resp_ok: bool) (resp_status: nat) (resp_json: "jsval option")

type_synonym fetch_t = "request \<Rightarrow> string + http_response"

definition is_space :: "char \<Rightarrow> bool" where
  "is_space c = (of_char c \<in> {9, 10, 11, 12, 13, 32, 160 :: nat})"

definition trim :: "string \<Rightarrow> string" where
  "trim s = rev (dropWhile is_space (rev (dropWhile is_space s)))"

text \<open>\<open>result.candidates[0].content.parts[0].text.trim()\<close>\<close>

definition response_text :: "jsval \<Rightarrow> js_error + string" where
  "response_text res =
     (case get_prop res ''candidates'' of Inl e \<Rightarrow> Inl e | Inr c \<Rightarrow>
     (case get_index c 0 of Inl e \<Rightarrow> Inl e | Inr c0 \<Rightarrow>
     (case get_prop c0 ''content'' of Inl e \<Rightarrow> Inl e | Inr ct \<Rightarrow>
     (case get_prop ct ''parts'' of Inl e \<Rightarrow> Inl e | Inr ps \<Rightarrow>
     (case get_index ps 0 of Inl e \<Rightarrow> Inl e | Inr p0 \<Rightarrow>
     (case get_prop p0 ''text'' of Inl e \<Rightarrow> Inl e | Inr t \<Rightarrow>
     (case t of JStr s \<Rightarrow> Inr (trim s) | _ \<Rightarrow> Inl TypeError)))))))"

text \<open>The error thrown for a response that is not \<open>ok\<close>:
  \<open>error.error?.message || response.status\<close> goes into its message.\<close>

definition api_error :: "http_response \<Rightarrow> js_error" where
  "api_error r =
     (case resp_json r of
        None \<Rightarrow> SyntaxError
      | Some err \<Rightarrow>
          (case get_prop err ''error'' of
             Inl e \<Rightarrow> e
           | Inr ee \<Rightarrow>
               (case (if ee = JNull \<or> ee = JUndefined then Inr JUndefined else get_prop ee ''message'') of
                  Inl e \<Rightarrow> e
                | Inr m \<Rightarrow> ApiError (js_or m (JNum (Fin (of_nat (resp_status r))))))))"

definition noFiltersResult :: result where
  "noFiltersResult =
     \<lparr> shouldFilter = JBool False,
       confidence = NoConfidence,
       res_method = ''No Filters Active'',
       reason = JStr ''No filters configured'',
       details = Details (JStr ''Add filters to enable content filtering''),
       error = JUndefined \<rparr>"

text \<open>
  analyzeBatchWithAPI. \<open>filters\<close> is \<open>None\<close> for a missing (undefined or null)
  rule list. The value is the outcome of the promise (\<open>Inl\<close>: rejected with the error)
  together with the list of requests that were sent to the classifier.
\<close>

definition analyzeBatchWithAPI ::
    "builtins \<Rightarrow> fetch_t \<Rightarrow> tweet list \<Rightarrow> string list option \<Rightarrow> (js_error + result list) \<times> request list" where
  "analyzeBatchWithAPI B fetch tweets filters =
     (case filters of
        None \<Rightarrow> (Inr (map (\<lambda>_. noFiltersResult) tweets), [])
      | Some fs \<Rightarrow>
          if length fs = 0 then (Inr (map (\<lambda>_. noFiltersResult) tweets), [])
          else
            (let req = build_request tweets fs in
             (case fetch req of
                Inl msg \<Rightarrow> (Inl (NetworkError msg), [req])
              | Inr response \<Rightarrow>
                  if \<not> resp_ok response then (Inl (api_error response), [req])
                  else
                    (case resp_json response of
                       None \<Rightarrow> (Inl SyntaxError, [req])
                     | Some res \<Rightarrow>
                         (case response_text res of
                            Inl e \<Rightarrow> (Inl e, [req])
                          | Inr responseText \<Rightarrow> (Inr (align B responseText tweets), [req]))))))"

definition batchErrorResult :: "js_error \<Rightarrow> result" where
  "batchErrorResult e =
     \<lparr> shouldFilter = JBool False,
       confidence = NoConfidence,
       res_method = ''Batch Error'',
       reason = JUndefined,
       details = ErrorMessage e,
       error = JStr ''Batch API analysis failed'' \<rparr>"

text \<open>The \<open>filterBatch\<close> branch of the message listener: the response it sends.\<close>

definition on_filterBatch ::
    "builtins \<Rightarrow> fetch_t \<Rightarrow> tweet list \<Rightarrow> string list option \<Rightarrow> result list \<times> request list" where
  "on_filterBatch B fetch tweets filters =
     (case analyzeBatchWithAPI B fetch tweets filters of
        (Inr results, calls) \<Rightarrow> (results, calls)
      | (Inl e, calls) \<Rightarrow> (map (\<lambda>_. batchErrorResult e) tweets, calls))"

section \<open>Heuristic classifier (content script, keywordFilterContent and semanticMatch)\<close>

text \<open>
  Strings are lists of 8-bit characters, read as the code points below 256 (Latin-1).
  \<open>toLowerCase\<close> maps the ASCII capitals and the Latin-1 capitals (192 to 222, without
  the multiplication sign 215) to the letter 32 places up and leaves every other
  character.
\<close>

definition lower_char :: "char \<Rightarrow> char" where
  "lower_char c =
     (let n = (of_char c :: nat)
      in if (65 \<le> n \<and> n \<le> 90) \<or> (192 \<le> n \<and> n \<le> 222 \<and> n \<noteq> 215) then char_of (n + 32) else c)"

definition toLowerCase :: "string \<Rightarrow> string" where
  "toLowerCase s = map lower_char s"

fun starts_with :: "string \<Rightarrow> string \<Rightarrow> bool" where
  "starts_with s [] = True"
| "starts_with [] (c # w) = False"
| "starts_with (d # s) (c # w) = (d = c \<and> starts_with s w)"

text \<open>\<open>s.includes(w)\<close>: \<open>w\<close> occurs in \<open>s\<close> as a contiguous substring.\<close>

fun js_includes :: "string \<Rightarrow> string \<Rightarrow> bool" where
  "js_includes [] w = (w = [])"
| "js_includes (d # s) w = (starts_with (d # s) w \<or> js_includes s w)"

text \<open>\<open>s.split(' ')\<close>: the pieces between single spaces; never an empty list.\<close>

fun split_space :: "string \<Rightarrow> string list" where
  "split_space [] = [[]]"
| "split_space (c # cs) =
     (if c = CHR '' '' then [] # split_space cs
      else (case split_space cs of [] \<Rightarrow> [[c]] | w # ws \<Rightarrow> (c # w) # ws))"

text \<open>The synonym table, in the order of \<open>Object.entries\<close> (insertion order).\<close>

definition synonyms :: "(string \<times> string list) list" where
  "synonyms =
    [(''political'', [''politics'', ''election'', ''vote'', ''voting'', ''government'', ''politician'',
        ''congress'', ''senate'', ''president'', ''democratic'', ''republican'', ''liberal'',
        ''conservative'', ''policy'', ''campaign'', ''ballot'', ''candidate'']),
     (''politics'', [''political'', ''election'', ''vote'', ''voting'', ''government'', ''politician'',
        ''congress'', ''senate'', ''president'', ''democratic'', ''republican'', ''liberal'',
        ''conservative'', ''policy'', ''campaign'']),
     (''crypto'', [''cryptocurrency'', ''bitcoin'', ''ethereum'', ''blockchain'', ''nft'', ''defi'',
        ''web3'', ''metaverse'', ''token'', ''coin'', ''mining'', ''wallet'', ''exchange'', ''trading'']),
     (''cryptocurrency'', [''crypto'', ''bitcoin'', ''ethereum'', ''blockchain'', ''nft'', ''defi'',
        ''web3'', ''metaverse'', ''token'', ''coin'', ''mining'']),
     (''bitcoin'', [''btc'', ''crypto'', ''cryptocurrency'', ''blockchain'', ''mining'', ''satoshi'']),
     (''sports'', [''football'', ''basketball'', ''soccer'', ''baseball'', ''tennis'', ''golf'',
        ''hockey'', ''game'', ''match'', ''tournament'', ''championship'', ''playoff'', ''season'',
        ''team'', ''player'', ''coach'', ''stadium'', ''league'']),
     (''football'', [''nfl'', ''quarterback'', ''touchdown'', ''superbowl'', ''sports'', ''game'', ''match'']),
     (''basketball'', [''nba'', ''playoffs'', ''championship'', ''sports'', ''game'', ''match'', ''court'']),
     (''negative'', [''sad'', ''angry'', ''hate'', ''terrible'', ''awful'', ''bad'', ''depressing'',
        ''tragic'', ''horrible'', ''devastating'', ''outrage'', ''disgusting'', ''shocking'']),
     (''toxic'', [''hate'', ''angry'', ''disgusting'', ''terrible'', ''awful'', ''horrible'', ''nasty'', ''mean'']),
     (''news'', [''breaking'', ''report'', ''update'', ''alert'', ''happening'', ''developing'',
        ''latest'', ''urgent'', ''exclusive'', ''story'']),
     (''breaking'', [''news'', ''alert'', ''urgent'', ''developing'', ''happening'', ''latest'', ''update'']),
     (''tech'', [''technology'', ''software'', ''hardware'', ''computer'', ''programming'', ''coding'',
        ''developer'', ''startup'', ''innovation'']),
     (''ai'', [''artificial intelligence'', ''machine learning'', ''deep learning'', ''neural network'',
        ''chatgpt'', ''openai'', ''anthropic'']),
     (''celebrity'', [''famous'', ''star'', ''actor'', ''actress'', ''singer'', ''musician'',
        ''influencer'', ''tiktoker'', ''youtuber'']),
     (''music'', [''song'', ''album'', ''artist'', ''band'', ''concert'', ''tour'', ''spotify'', ''streaming'']),
     (''finance'', [''money'', ''stock'', ''investment'', ''trading'', ''market'', ''economy'',
        ''recession'', ''inflation'', ''bank'']),
     (''stock'', [''market'', ''trading'', ''investment'', ''shares'', ''nasdaq'', ''dow'', ''sp500'', ''finance''])]"

text \<open>
  The first loop of semanticMatch: the first key that contains the filter word or is
  contained in it decides (\<open>Some\<close>); \<open>None\<close> when no key does and the loop ends.
\<close>

fun synonym_lookup :: "(string \<times> string list) list \<Rightarrow> string \<Rightarrow> string \<Rightarrow> bool option" where
  "synonym_lookup [] txt filterWord = None"
| "synonym_lookup ((key, ws) # rest) txt filterWord =
     (if js_includes filterWord key \<or> js_includes key filterWord
      then Some (list_ex (\<lambda>w. js_includes txt w) ws)
      else synonym_lookup rest txt filterWord)"

text \<open>
  The regular expressions \<open>/\b(stem1\w*|stem2\w*|...)\b/i\<close>: a match exists iff one of
  the stems stands in the text, letters compared without case, at a position that is the
  start of the text or follows a character that is not a word character. (Every stem ends
  in a letter, so \<open>\w*\<close> can run to the end of the word, where the closing \<open>\b\<close>
  holds.)
\<close>

definition is_word_char :: "char \<Rightarrow> bool" where
  "is_word_char c =
     (let n = (of_char c :: nat)
      in (48 \<le> n \<and> n \<le> 57) \<or> (65 \<le> n \<and> n \<le> 90) \<or> n = 95 \<or> (97 \<le> n \<and> n \<le> 122))"

fun stem_scan :: "string list \<Rightarrow> bool \<Rightarrow> string \<Rightarrow> bool" where
  "stem_scan stems prev_word [] = False"
| "stem_scan stems prev_word (c # cs) =
     ((\<not> prev_word \<and> list_ex (\<lambda>st. starts_with (c # cs) st) stems)
      \<or> stem_scan stems (is_word_char c) cs)"

definition regex_match :: "string list \<Rightarrow> string \<Rightarrow> bool" where
  "regex_match stems txt = stem_scan stems False (toLowerCase txt)"

definition partialMatches :: "string \<Rightarrow> (string \<times> bool) list" where
  "partialMatches txt =
     [(''political'', regex_match [''politic'', ''govern'', ''election'', ''campaign''] txt),
      (''crypto'', regex_match [''crypto'', ''bitcoin'', ''blockchain'', ''nft''] txt),
      (''sports'', regex_match [''sport'', ''game'', ''match'', ''playoff''] txt),
      (''negative'', regex_match [''hate'', ''angry'', ''terrible'', ''awful''] txt)]"

definition semanticMatch :: "string \<Rightarrow> string \<Rightarrow> bool" where
  "semanticMatch txt filterWord =
     (case synonym_lookup synonyms txt filterWord of
        Some b \<Rightarrow> b
      | None \<Rightarrow> list_ex (\<lambda>(key, regex). js_includes filterWord key \<and> regex) (partialMatches txt))"

text \<open>
  The callback of \<open>filterWords.filter\<close>:
  \<open>word => lowerText.includes(word) || this.semanticMatch(lowerText, word)\<close>,
  and the length of the filtered list.
\<close>

definition word_matches :: "string \<Rightarrow> string \<Rightarrow> bool" where
  "word_matches lowerText w = (js_includes lowerText w \<or> semanticMatch lowerText w)"

definition matchCount :: "string \<Rightarrow> string list \<Rightarrow> nat" where
  "matchCount lowerText filterWords = length (filter (word_matches lowerText) filterWords)"

text \<open>
  Doubles. \<open>ilog2 q\<close> is the binary exponent of a positive rational (the integer
  \<open>e\<close> with \<open>2^e \<le> q < 2^(e+1)\<close>), \<open>round_half_even\<close> rounds to the nearest
  integer and a tie to the even one, and \<open>to_double\<close> rounds a rational to the nearest
  number with a 53-bit significand, as a division or multiplication of doubles rounds its
  exact result. Overflow and subnormal numbers are not modelled: the quotient of two word
  counts and one hundred times it are far from both.
\<close>

definition ilog2 :: "rat \<Rightarrow> int" where
  "ilog2 q = (if 1 \<le> q then bitlen \<lfloor>q\<rfloor> - 1 else - bitlen (\<lceil>1 / q\<rceil> - 1))"

definition round_half_even :: "rat \<Rightarrow> int" where
  "round_half_even x =
     (let f = \<lfloor>x\<rfloor>; r = x - of_int f
      in if r < 1 / 2 then f else if 1 / 2 < r then f + 1 else if even f then f else f + 1)"

definition to_double :: "rat \<Rightarrow> rat" where
  "to_double q =
     (if q = 0 then 0
      else let a = \<bar>q\<bar>; u = 2 powi (ilog2 a - 52)
           in sgn q * (of_int (round_half_even (a / u)) * u))"

text \<open>
  \<open>Math.ceil(n / 2)\<close> (half a word count is a double) and \<open>x.toFixed(0)\<close> (the
  nearest integer to the double \<open>x\<close>, the larger of two).
\<close>

definition Math_ceil :: "rat \<Rightarrow> int" where
  "Math_ceil q = \<lceil>q\<rceil>"

definition toFixed0 :: "rat \<Rightarrow> int" where
  "toFixed0 q = \<lfloor>q + 1 / 2\<rfloor>"

definition keywordsNoMatch :: result where
  "keywordsNoMatch =
     \<lparr> shouldFilter = JBool False,
       confidence = NoConfidence,
       res_method = ''Keywords'',
       reason = JUndefined,
       details = Details JUndefined,
       error = JUndefined \<rparr>"

text \<open>
  The object returned for a rule with \<open>mc\<close> of its \<open>n\<close> words matching; the
  confidence is \<open>(matchCount / filterWords.length * 100).toFixed(0)\<close>, a quotient
  and a product of doubles.
\<close>

definition keywordsMatch :: "string \<Rightarrow> nat \<Rightarrow> nat \<Rightarrow> result" where
  "keywordsMatch f mc n =
     \<lparr> shouldFilter = JBool True,
       confidence =
         Percent (Fin (of_int (toFixed0 (to_double (to_double (of_nat mc / of_nat n) * 100))))),
       res_method = ''Keywords'',
       reason = JStr f,
       details = Details JUndefined,
       error = JUndefined \<rparr>"

text \<open>The loop over \<open>this.filters\<close>, for the lowercase text.\<close>

fun keyword_loop :: "string \<Rightarrow> string list \<Rightarrow> result" where
  "keyword_loop lowerText [] = keywordsNoMatch"
| "keyword_loop lowerText (f # fs) =
     (let filterWords = split_space (toLowerCase f);
          mc = matchCount lowerText filterWords
      in if int mc \<ge> Math_ceil (of_nat (length filterWords) / 2)
         then keywordsMatch f mc (length filterWords)
         else keyword_loop lowerText fs)"

definition keywordFilterContent :: "string list \<Rightarrow> string \<Rightarrow> result" where
  "keywordFilterContent filters txt = keyword_loop (toLowerCase txt) filters"

section \<open>Content scanner and filter orchestrator (content script)\<close>

text \<open>
  A unit is identified by its node (a number). A \<open>document\<close> is the page as one scan
  round reads it: the nodes of each selector, and of a node the text content of the first
  descendant that matches a text selector and the sources of its images. What the script
  changes of a node (the class list, the position style and the appended overlays) is
  kept apart, in a map from nodes to their \<open>element\<close> views. An appended overlay
  changes what the browser finds in the node afterwards, so a later round reads a page of
  its own; the model derives no page from the one before.
\<close>

datatype tweet_selector = Sel_testid_tweet | Sel_testid_tweetText | Sel_article

datatype text_selector = TS_testid_tweetText | TS_lang | TS_tweet_text | TS_js_tweet_text | TS_span

text \<open>
  An overlay by the parts of its markup that vary: the icon and the vision note follow
  \<open>ov_isVisualFilter\<close>, the confidence shown is \<open>confidence || 'N/A'\<close> (so
  \<open>NoConfidence\<close> shows "N/A"), and the method span is there for a non-empty method.
\<close>

record overlay =
  ov_className :: string
  ov_isVisualFilter :: bool
  ov_reason :: jsval
  ov_confidence :: confidence_t
  ov_method :: string
  ov_display :: string

record element =
  classList :: "string list"
  style_position :: string
  overlays :: "overlay list"

record document =
  querySelectorAll :: "tweet_selector \<Rightarrow> nat list"
  textContent :: "nat \<Rightarrow> text_selector \<Rightarrow> string option"
  img_srcs :: "nat \<Rightarrow> string list"

type_synonym element_views = "nat \<Rightarrow> element"

record filter_state =
  filters :: "string list"
  processedTweets :: "nat set"

definition tweetSelectors :: "tweet_selector list" where
  "tweetSelectors = [Sel_testid_tweet, Sel_testid_tweetText, Sel_article]"

definition textSelectors :: "text_selector list" where
  "textSelectors = [TS_testid_tweetText, TS_lang, TS_tweet_text, TS_js_tweet_text, TS_span]"

definition extractTweetText :: "document \<Rightarrow> nat \<Rightarrow> string" where
  "extractTweetText d el =
     trim (concat (map (\<lambda>sel. case textContent d el sel of None \<Rightarrow> [] | Some t \<Rightarrow> t @ '' '')
                       textSelectors))"

type_synonym batch_entry = "nat \<times> string \<times> string list"

text \<open>
  The inner loop of processTweets over the elements of one selector; the state is the
  pair of \<open>batchEntries\<close> and \<open>this.processedTweets\<close>.
\<close>

fun scan_elements :: "document \<Rightarrow> nat list \<Rightarrow> batch_entry list \<times> nat set \<Rightarrow> batch_entry list \<times> nat set" where
  "scan_elements d [] (batchEntries, seen) = (batchEntries, seen)"
| "scan_elements d (el # els) (batchEntries, seen) =
     (if el \<in> seen then scan_elements d els (batchEntries, seen)
      else
        (let tweetText = extractTweetText d el
         in if tweetText = [] then scan_elements d els (batchEntries, seen)
            else scan_elements d els
                   (batchEntries @ [(el, tweetText, img_srcs d el)], insert el seen)))"

text \<open>The outer loop over the selectors, left once a selector has given entries.\<close>

fun scan_selectors :: "document \<Rightarrow> tweet_selector list \<Rightarrow> batch_entry list \<times> nat set \<Rightarrow> batch_entry list \<times> nat set" where
  "scan_selectors d [] st = st"
| "scan_selectors d (sel # sels) st =
     (let st' = scan_elements d (querySelectorAll d sel) st
      in if length (fst st') > 0 then st' else scan_selectors d sels st')"

definition scan_round :: "document \<Rightarrow> nat set \<Rightarrow> batch_entry list \<times> nat set" where
  "scan_round d seen = scan_selectors d tweetSelectors ([], seen)"

text \<open>
  \<open>chrome.runtime.sendMessage\<close>: the message reaches the background script and its
  response comes back, or the call rejects with an error (whose message may be missing).
\<close>

datatype channel = Delivered | Rejected "string option"

definition batchData :: "batch_entry list \<Rightarrow> tweet list" where
  "batchData batchEntries =
     map_idx (\<lambda>i (tweetId, txt, images).
                \<lparr> tweet_id = tweetId, index = i, tweet_text = txt, hasImages = (length images > 0) \<rparr>)
             0 batchEntries"

definition contentBatchError :: "string option \<Rightarrow> result" where
  "contentBatchError msg =
     \<lparr> shouldFilter = JBool False,
       confidence = Percent (Fin 0),
       res_method = ''Batch Error'',
       reason = JStr ''Batch processing failed'',
       details = Details (js_or (case msg of None \<Rightarrow> JUndefined | Some m \<Rightarrow> JStr m)
                                (JStr ''Unknown error'')),
       error = JUndefined \<rparr>"

definition batchFilterContent ::
    "builtins \<Rightarrow> fetch_t \<Rightarrow> channel \<Rightarrow> string list \<Rightarrow> batch_entry list \<Rightarrow> result list \<times> request list" where
  "batchFilterContent B fetch chan fs batchEntries =
     (case chan of
        Delivered \<Rightarrow> on_filterBatch B fetch (batchData batchEntries) (Some fs)
      | Rejected msg \<Rightarrow> (map (\<lambda>_. contentBatchError msg) batchEntries, []))"

text \<open>\<open>classList.add\<close>: a token list holds a token once.\<close>

definition classList_add :: "string \<Rightarrow> string list \<Rightarrow> string list" where
  "classList_add c cs = (if c \<in> set cs then cs else cs @ [c])"

definition applyFilter :: "element \<Rightarrow> jsval \<Rightarrow> confidence_t \<Rightarrow> string \<Rightarrow> element" where
  "applyFilter tweetElement rsn conf meth =
     (if ''filtered-content'' \<in> set (classList tweetElement) then tweetElement
      else
        tweetElement
          \<lparr> classList := classList_add ''filtered-content'' (classList tweetElement),
            style_position := ''relative'',
            overlays := overlays tweetElement @
              [\<lparr> ov_className = ''filter-overlay'',
                 ov_isVisualFilter = (meth \<noteq> [] \<and> js_includes meth ''Vision''),
                 ov_reason = rsn,
                 ov_confidence = conf,
                 ov_method = meth,
                 ov_display = [] \<rparr>] \<rparr>)"

text \<open>
  \<open>results.forEach((res, idx) => ...)\<close>: a result that asks for filtering at a position
  with no batch entry throws and ends the loop.
\<close>

fun apply_results :: "element_views \<Rightarrow> batch_entry list \<Rightarrow> result list \<Rightarrow> element_views" where
  "apply_results els es [] = els"
| "apply_results els [] (r # rs) = (if truthy (shouldFilter r) then els else apply_results els [] rs)"
| "apply_results els ((el, data) # es) (r # rs) =
     apply_results
       (if truthy (shouldFilter r)
        then els(el := applyFilter (els el) (reason r) (confidence r) (res_method r))
        else els)
       es rs"

text \<open>
  processTweets, from the scan of the page \<open>d\<close> to the overlays: the new state of the
  filter, the new views of the nodes and the requests that reached the classifier.
\<close>

definition processTweets ::
    "builtins \<Rightarrow> fetch_t \<Rightarrow> channel \<Rightarrow> filter_state \<Rightarrow> document \<Rightarrow> element_views
       \<Rightarrow> filter_state \<times> element_views \<times> request list" where
  "processTweets B fetch chan st d els =
     (if length (filters st) = 0 then (st, els, [])
      else
        (let (batchEntries, seen) = scan_round d (processedTweets st);
             st' = st\<lparr> processedTweets := seen \<rparr>
         in if length batchEntries = 0 then (st', els, [])
            else
              (let (results, calls) = batchFilterContent B fetch chan (filters st) batchEntries
               in (st', apply_results els batchEntries results, calls))))"

text \<open>
  The units a scan round visits: the elements of every selector the outer loop reaches,
  up to and with the selector after which it breaks.
\<close>

fun visited_in :: "document \<Rightarrow> tweet_selector list \<Rightarrow> batch_entry list \<times> nat set \<Rightarrow> nat list" where
  "visited_in d [] st = []"
| "visited_in d (sel # sels) st =
     (let st' = scan_elements d (querySelectorAll d sel) st
      in querySelectorAll d sel @ (if length (fst st') > 0 then [] else visited_in d sels st'))"

definition visited_units :: "document \<Rightarrow> nat set \<Rightarrow> nat list" where
  "visited_units d seen = visited_in d tweetSelectors ([], seen)"

section \<open>The matching rule in the words of the specification\<close>

text \<open>
  These definitions follow the specification, not the code. A word of a rule matches the
  lowercase text if the text contains it verbatim, or it matches through the synonym
  table, or it matches through the stem expression of one of the four topics; a rule
  matches if at least \<open>ceil(wordCount / 2)\<close> of its lowercase words match. The table
  and the stem expressions are those of the code. They are compared with
  keywordFilterContent below.
\<close>

definition synonym_match :: "string \<Rightarrow> string \<Rightarrow> bool" where
  "synonym_match lowerText w = (synonym_lookup synonyms lowerText w = Some True)"

definition stem_match :: "string \<Rightarrow> string \<Rightarrow> bool" where
  "stem_match lowerText w =
     list_ex (\<lambda>(key, regex). js_includes w key \<and> regex) (partialMatches lowerText)"

definition spec_word_matches :: "string \<Rightarrow> string \<Rightarrow> bool" where
  "spec_word_matches lowerText w =
     (js_includes lowerText w \<or> synonym_match lowerText w \<or> stem_match lowerText w)"

definition spec_rule_matches :: "string \<Rightarrow> string \<Rightarrow> bool" where
  "spec_rule_matches lowerText rule =
     (let ws = split_space (toLowerCase rule)
      in (length ws + 1) div 2 \<le> length (filter (spec_word_matches lowerText) ws))"

section \<open>Auxiliary predicates\<close>

text \<open>
  The condition under which the loop of keywordFilterContent returns for a rule, in
  natural numbers: at least half of the words of the rule, rounded up, pass the callback
  of the code.
\<close>

definition rule_matches :: "string \<Rightarrow> string \<Rightarrow> bool" where
  "rule_matches lowerText rule =
     (let ws = split_space (toLowerCase rule)
      in (length ws + 1) div 2 \<le> length (filter (word_matches lowerText) ws))"

text \<open>
  An entry of a scan round that started with the processed set \<open>s\<close> is well formed:
  its node was not processed before, and its text is the non-empty text extracted from
  the node.
\<close>

definition entry_ok :: "document \<Rightarrow> nat set \<Rightarrow> batch_entry \<Rightarrow> bool" where
  "entry_ok d s e = (fst e \<notin> s \<and> fst (snd e) = extractTweetText d (fst e) \<and> fst (snd e) \<noteq> [])"

section \<open>Example inputs\<close>

definition example_tweet :: "nat \<Rightarrow> string \<Rightarrow> tweet" where
  "example_tweet i txt = \<lparr> tweet_id = i, index = i, tweet_text = txt, hasImages = False \<rparr>"

text \<open>Builtins whose \<open>JSON.parse\<close> gives a fixed outcome.\<close>

definition parsing_builtins :: "jsval option \<Rightarrow> builtins" where
  "parsing_builtins parsed = \<lparr> json_parse = (\<lambda>_. parsed), to_number_object = (\<lambda>_. None) \<rparr>"

text \<open>
  The payload
  \<open>{"results":[{"tweetIndex":1,"shouldFilter":true,"matchedFilter":"spam","confidence":c,"reasoning":"x"}]}\<close>
  as \<open>JSON.parse\<close> reads it.
\<close>

definition payload_with_confidence :: "jsnum \<Rightarrow> jsval" where
  "payload_with_confidence c =
     JObj [(''results'', JArr [JObj [(''tweetIndex'', JNum (Fin 1)), (''shouldFilter'', JBool True),
        (''matchedFilter'', JStr ''spam''), (''confidence'', JNum c), (''reasoning'', JStr ''x'')]])]"

text \<open>
  The same payload with confidence 150 and a second entry that is \<open>null\<close>:
  \<open>{"results":[{"tweetIndex":1,...,"confidence":150,...},null]}\<close>.
\<close>

definition payload_with_null_entry :: jsval where
  "payload_with_null_entry =
     JObj [(''results'', JArr [JObj [(''tweetIndex'', JNum (Fin 1)), (''shouldFilter'', JBool True),
        (''matchedFilter'', JStr ''spam''), (''confidence'', JNum (Fin 150)), (''reasoning'', JStr ''x'')],
        JNull])]"

text \<open>A response of the classifier with success status that carries the given text.\<close>

definition ok_response :: "string \<Rightarrow> http_response" where
  "ok_response txt =
     HttpResponse True 200
       (Some (JObj [(''candidates'',
          JArr [JObj [(''content'', JObj [(''parts'', JArr [JObj [(''text'', JStr txt)]])])]])]))"

text \<open>A response with status 429 and an error body.\<close>

definition http_429 :: http_response where
  "http_429 = HttpResponse False 429
     (Some (JObj [(''error'', JObj [(''code'', JNum (Fin 429)), (''message'', JStr ''Resource exhausted'')])]))"

definition example_entries :: "batch_entry list" where
  "example_entries =
     [(1, ''Congress passed a new voting bill today'', []), (2, ''good morning'', [''a.png''])]"

text \<open>A node that carries no filter class and no overlay.\<close>

definition fresh_element :: element where
  "fresh_element = \<lparr> classList = [''tweet''], style_position = [], overlays = [] \<rparr>"

text \<open>
  A page with two nodes under the first selector: node 1 has text, node 2 has none yet.
  On the later page node 2 has text as well.
\<close>

definition example_document :: document where
  "example_document =
     \<lparr> querySelectorAll = (\<lambda>sel. if sel = Sel_testid_tweet then [1, 2] else []),
       textContent = (\<lambda>el sel. if el = 1 \<and> sel = TS_testid_tweetText
                                then Some ''Congress passed a new voting bill today'' else None),
       img_srcs = (\<lambda>_. []) \<rparr>"

definition example_views :: element_views where
  "example_views = (\<lambda>_. fresh_element)"

definition example_document_later :: document where
  "example_document_later =
     example_document\<lparr> textContent := (\<lambda>el sel. if sel = TS_testid_tweetText
         then (if el = 1 then Some ''Congress passed a new voting bill today''
               else if el = 2 then Some ''late text'' else None)
         else None) \<rparr>"

definition example_state :: filter_state where
  "example_state = \<lparr> filters = [''political content''], processedTweets = {} \<rparr>"

section \<open>Verification: response alignment\<close>

lemma map_index_length: "map_index f i xs = Inr ys \<Longrightarrow> length ys = length xs"
  by (induction xs arbitrary: i ys) (auto split: sum.splits)

lemma map_index_nth:
  "map_index f i xs = Inr ys \<Longrightarrow> k < length xs \<Longrightarrow> f (i + k) = Inr (ys ! k)"
proof (induction xs arbitrary: i ys k)
  case Nil
  then show ?case by simp
next
  case (Cons x xs)
  from Cons.prems(1) obtain y ys' where fi: "f i = Inr y"
    and rest: "map_index f (Suc i) xs = Inr ys'" and ys: "ys = y # ys'"
    by (auto split: sum.splits)
  show ?case
  proof (cases k)
    case 0
    then show ?thesis using fi ys by simp
  next
    case (Suc j)
    with Cons.prems(2) have "j < length xs" by simp
    from Cons.IH[OF rest this] show ?thesis using Suc ys by simp
  qed
qed

lemma align_try_length: "align_try B responseText tweets = Inr rs \<Longrightarrow> length rs = length tweets"
  by (auto simp: align_try_def split: option.splits sum.splits dest: map_index_length)

lemma align_length: "length (align B responseText tweets) = length tweets"
  by (auto simp: align_def split: sum.splits dest: align_try_length)

lemma align_parse_failure:
  "json_parse B responseText = None \<Longrightarrow>
   align B responseText tweets = map (\<lambda>_. parseErrorResult) tweets"
  by (simp add: align_def align_try_def)

lemma analyzeBatchWithAPI_length:
  "fst (analyzeBatchWithAPI B fetch tweets fs) = Inr rs \<Longrightarrow> length rs = length tweets"
  by (auto simp: analyzeBatchWithAPI_def Let_def align_length split: option.splits sum.splits if_splits)

lemma on_filterBatch_length: "length (fst (on_filterBatch B fetch tweets fs)) = length tweets"
proof (cases "analyzeBatchWithAPI B fetch tweets fs")
  case (Pair outcome calls)
  show ?thesis
  proof (cases outcome)
    case (Inl e)
    with Pair show ?thesis by (simp add: on_filterBatch_def)
  next
    case (Inr rs)
    with Pair have "length rs = length tweets"
      using analyzeBatchWithAPI_length[of B fetch tweets fs rs] by simp
    with Pair Inr show ?thesis by (simp add: on_filterBatch_def)
  qed
qed

text \<open>
  C1. For every list of units and every raw payload of the classifier, whatever
  \<open>JSON.parse\<close> makes of it (a well-formed, malformed, truncated or reordered answer,
  or one with missing entries), the alignment returns exactly one result per unit: the
  result list is as long as the list of units. The same holds for the response of the
  \<open>filterBatch\<close> handler as a whole.
\<close>

theorem align_one_result_per_unit:
  "length (align B responseText tweets) = length tweets
   \<and> length (fst (on_filterBatch B fetch tweets fs)) = length tweets"
  by (simp add: align_length on_filterBatch_length)

text \<open>
  An answer with its entries out of order and no entry for the second unit: a unit takes
  the entry that declares its index, and a unit with no such entry takes the entry at its
  list position.
\<close>

lemma align_reordered_example:
  "map (\<lambda>r. (shouldFilter r, reason r))
     (align (parsing_builtins (Some (JObj [(''results'', JArr
          [JObj [(''tweetIndex'', JNum (Fin 3)), (''shouldFilter'', JBool True), (''matchedFilter'', JStr ''c'')],
           JObj [(''tweetIndex'', JNum (Fin 1)), (''shouldFilter'', JBool False), (''matchedFilter'', JStr ''a'')]])])))
        ''payload'' [example_tweet 0 ''t1'', example_tweet 1 ''t2'', example_tweet 2 ''t3''])
   = [(JBool False, JStr ''a''), (JBool False, JStr ''a''), (JBool True, JStr ''c'')]"
  by code_simp

lemma parseErrorResult_props:
  "shouldFilter parseErrorResult = JBool False
   \<and> js_includes (res_method parseErrorResult) ''Parse Error''"
  by (simp add: parseErrorResult_def MODEL_NAME_def)

text \<open>
  C6. When the classifier answers with success status and the text of the answer does
  not parse (\<open>JSON.parse\<close> throws), the alignment returns one result per unit, each
  with \<open>shouldFilter = false\<close> and a method that contains "Parse Error". The promise
  of analyzeBatchWithAPI is fulfilled with these results (one request was sent), so the
  handler answers with them and not with its batch-error results.
\<close>

theorem parse_failure_recovered_locally:
  assumes "fs \<noteq> []"
    and "fetch (build_request tweets fs) = Inr response"
    and "resp_ok response"
    and "resp_json response = Some res"
    and "response_text res = Inr responseText"
    and "json_parse B responseText = None"
  shows "analyzeBatchWithAPI B fetch tweets (Some fs)
           = (Inr (map (\<lambda>_. parseErrorResult) tweets), [build_request tweets fs])
         \<and> align B responseText tweets = map (\<lambda>_. parseErrorResult) tweets
         \<and> length (align B responseText tweets) = length tweets
         \<and> list_all (\<lambda>r. shouldFilter r = JBool False \<and> js_includes (res_method r) ''Parse Error'')
              (align B responseText tweets)
         \<and> fst (on_filterBatch B fetch tweets (Some fs)) = align B responseText tweets"
proof -
  have a: "align B responseText tweets = map (\<lambda>_. parseErrorResult) tweets"
    using assms(6) by (rule align_parse_failure)
  have g: "analyzeBatchWithAPI B fetch tweets (Some fs)
             = (Inr (align B responseText tweets), [build_request tweets fs])"
    using assms(1-5) by (simp add: analyzeBatchWithAPI_def Let_def)
  have l: "list_all (\<lambda>r. shouldFilter r = JBool False \<and> js_includes (res_method r) ''Parse Error'')
              (map (\<lambda>_. parseErrorResult) tweets)"
    using parseErrorResult_props by (simp add: list_all_iff)
  show ?thesis using a g l by (simp add: on_filterBatch_def)
qed

theorem parse_failure_recovered_locally_witness:
  "[''spam''] \<noteq> []
   \<and> resp_ok (ok_response ''not json'')
   \<and> response_text (the (resp_json (ok_response ''not json''))) = Inr ''not json''
   \<and> json_parse (parsing_builtins None) ''not json'' = None
   \<and> fst (on_filterBatch (parsing_builtins None) (\<lambda>_. Inr (ok_response ''not json''))
          [example_tweet 0 ''hello'', example_tweet 1 ''world''] (Some [''spam'']))
       = [parseErrorResult, parseErrorResult]"
proof -
  let ?envelope = "JObj [(''candidates'',
          JArr [JObj [(''content'', JObj [(''parts'', JArr [JObj [(''text'', JStr ''not json'')]])])]])]"
  have rt: "response_text ?envelope = Inr ''not json''"
    by code_simp
  have h1: "[''spam''] \<noteq> ([] :: string list)" by simp
  have h3: "resp_ok (ok_response ''not json'')" by (simp add: ok_response_def)
  have h4: "resp_json (ok_response ''not json'') = Some ?envelope"
    by (simp add: ok_response_def)
  have h6: "json_parse (parsing_builtins None) ''not json'' = None"
    by (simp add: parsing_builtins_def)
  from parse_failure_recovered_locally[of "[''spam'']" "\<lambda>_. Inr (ok_response ''not json'')"
      "[example_tweet 0 ''hello'', example_tweet 1 ''world'']" "ok_response ''not json''",
      OF h1 refl h3 h4 rt h6]
  show ?thesis using h3 h4 rt h6 by simp
qed

lemma build_result_confidence:
  assumes "get_prop a ''confidence'' = Inr (JNum c)"
  shows "\<exists>r. build_result B a = Inr r \<and>
     confidence r = Percent (Math_min (Fin 100) (Math_max (Fin 1) (if c = NaN \<or> c = Fin 0 then Fin 50 else c)))"
  using assms
  by (cases a) (auto simp: build_result_def js_or_def split: sum.splits option.splits)

lemma clamp_cases:
  "num_less c (Fin 1) \<or> num_less (Fin 100) c \<Longrightarrow>
   Math_min (Fin 100) (Math_max (Fin 1) (if c = NaN \<or> c = Fin 0 then Fin 50 else c))
     = (if c = Fin 0 then Fin 50 else if num_less (Fin 100) c then Fin 100 else Fin 1)"
  by (cases c) (auto simp: Math_min_def Math_max_def)

lemma align_try_nth:
  assumes "align_try B responseText tweets = Inr rs" and "i < length tweets"
    and "json_parse B responseText = Some parsed" and "get_prop parsed ''results'' = Inr res"
  shows "process_one B (js_or res (JArr [])) i = Inr (rs ! i)"
proof -
  from assms(1,3,4) have "map_index (process_one B (js_or res (JArr []))) 0 tweets = Inr rs"
    by (simp add: align_try_def)
  from map_index_nth[OF this assms(2)] show ?thesis by simp
qed

text \<open>
  What the code computes for a numeric confidence outside [1,100]. Let the answer parse,
  let the alignment run without an exception, and let the entry selected for unit \<open>i\<close>
  carry the confidence \<open>c\<close>. The aligned confidence of unit \<open>i\<close> is 100 for \<open>c\<close>
  above 100 and 1 for \<open>c\<close> below 1 other than 0: these values are clamped. For
  \<open>c = 0\<close> it is 50, because \<open>apiResult.confidence || 50\<close> takes the falsy 0 for a
  missing confidence before \<open>Math.max(1, ...)\<close> sees it.
\<close>

lemma aligned_confidence_out_of_range:
  assumes "json_parse B responseText = Some parsed"
    and "get_prop parsed ''results'' = Inr res"
    and "align_try B responseText tweets = Inr rs"
    and "i < length tweets"
    and "select_apiResult (js_or res (JArr [])) i = Inr a"
    and "get_prop a ''confidence'' = Inr (JNum c)"
    and "num_less c (Fin 1) \<or> num_less (Fin 100) c"
  shows "confidence (align B responseText tweets ! i)
           = Percent (if c = Fin 0 then Fin 50 else if num_less (Fin 100) c then Fin 100 else Fin 1)
         \<and> (\<exists>q. confidence (align B responseText tweets ! i) = Percent (Fin q) \<and> 1 \<le> q \<and> q \<le> 100)
         \<and> (c = Fin 150 \<longrightarrow>
              confidence_text (confidence (align B responseText tweets ! i)) = Some ''100%'')"
proof -
  have al: "align B responseText tweets = rs" using assms(3) by (simp add: align_def)
  have "process_one B (js_or res (JArr [])) i = Inr (rs ! i)"
    using align_try_nth[OF assms(3,4,1,2)] .
  with assms(5) have br: "build_result B a = Inr (rs ! i)" by (simp add: process_one_def)
  from build_result_confidence[OF assms(6), of B] br
  have "confidence (rs ! i)
          = Percent (Math_min (Fin 100) (Math_max (Fin 1) (if c = NaN \<or> c = Fin 0 then Fin 50 else c)))"
    by auto
  with clamp_cases[OF assms(7)]
  have c1: "confidence (rs ! i)
          = Percent (if c = Fin 0 then Fin 50 else if num_less (Fin 100) c then Fin 100 else Fin 1)"
    by simp
  have t: "confidence_text (Percent (Fin 100)) = Some ''100%''" by code_simp
  show ?thesis using c1 al t by auto
qed

lemma aligned_confidence_150_example:
  "json_parse (parsing_builtins (Some (payload_with_confidence (Fin 150)))) ''payload''
      = Some (payload_with_confidence (Fin 150))
   \<and> num_less (Fin 100) (Fin 150)
   \<and> confidence (align (parsing_builtins (Some (payload_with_confidence (Fin 150)))) ''payload''
        [example_tweet 0 ''buy now''] ! 0) = Percent (Fin 100)
   \<and> confidence_text (confidence (align (parsing_builtins (Some (payload_with_confidence (Fin 150))))
        ''payload'' [example_tweet 0 ''buy now''] ! 0)) = Some ''100%''"
proof -
  let ?B = "parsing_builtins (Some (payload_with_confidence (Fin 150)))"
  let ?entry = "JObj [(''tweetIndex'', JNum (Fin 1)), (''shouldFilter'', JBool True),
        (''matchedFilter'', JStr ''spam''), (''confidence'', JNum (Fin 150)), (''reasoning'', JStr ''x'')]"
  have h1: "json_parse ?B ''payload'' = Some (payload_with_confidence (Fin 150))"
    by (simp add: parsing_builtins_def)
  have h2: "get_prop (payload_with_confidence (Fin 150)) ''results'' = Inr (JArr [?entry])"
    by (simp add: payload_with_confidence_def)
  have h3: "align_try ?B ''payload'' [example_tweet 0 ''buy now'']
      = Inr (align ?B ''payload'' [example_tweet 0 ''buy now''])"
    by code_simp
  have h4: "0 < length [example_tweet 0 ''buy now'']" by simp
  have h5: "select_apiResult (js_or (JArr [?entry]) (JArr [])) 0 = Inr ?entry"
    by (simp add: select_apiResult_def js_or_def)
  have h6: "get_prop ?entry ''confidence'' = Inr (JNum (Fin 150))" by simp
  have h7: "num_less (Fin 150) (Fin 1) \<or> num_less (Fin 100) (Fin 150)" by simp
  note main = aligned_confidence_out_of_range[OF h1 h2 h3 h4 h5 h6 h7]
  have r1: "confidence (align ?B ''payload'' [example_tweet 0 ''buy now''] ! 0) = Percent (Fin 100)"
    using main by simp
  have r2: "confidence_text (confidence (align ?B ''payload'' [example_tweet 0 ''buy now''] ! 0))
      = Some ''100%''"
    using main by blast
  have r3: "num_less (Fin 100) (Fin 150)" by simp
  show ?thesis using h1 r1 r2 r3 by blast
qed

text \<open>
  An exception anywhere in the alignment sends every unit to the parse-error result: with
  a \<open>null\<close> entry beside it, the entry with confidence 150 comes out as "0%".
\<close>

lemma null_entry_example:
  "map (\<lambda>r. (confidence_text (confidence r), res_method r))
     (align (parsing_builtins (Some payload_with_null_entry)) ''payload''
        [example_tweet 0 ''buy now'', example_tweet 1 ''hello''])
   = [(Some ''0%'', ''gemini-1.5-flash-latest Batch API - Parse Error''),
      (Some ''0%'', ''gemini-1.5-flash-latest Batch API - Parse Error'')]"
  by code_simp

text \<open>
  C7. A confidence outside [1,100] is to be clamped into [1,100]; the claim names 0. The
  code does not clamp a returned confidence of 0: for the payload
  \<open>{"results":[{"tweetIndex":1,"shouldFilter":true,"matchedFilter":"spam","confidence":0,"reasoning":"x"}]}\<close>
  and one unit, the aligned confidence is "50%", where the clamp of 0 into [1,100], which
  the code computes for every other value below 1, is 1.
\<close>

theorem confidence_zero_not_clamped:
  "confidence (align (parsing_builtins (Some (payload_with_confidence (Fin 0)))) ''payload''
        [example_tweet 0 ''buy now''] ! 0) = Percent (Fin 50)
   \<and> confidence_text (confidence (align (parsing_builtins (Some (payload_with_confidence (Fin 0))))
        ''payload'' [example_tweet 0 ''buy now''] ! 0)) = Some ''50%''
   \<and> Math_min (Fin 100) (Math_max (Fin 1) (Fin 0)) = Fin 1
   \<and> confidence (align (parsing_builtins (Some (payload_with_confidence (Fin (- 1))))) ''payload''
        [example_tweet 0 ''buy now''] ! 0) = Percent (Fin 1)"
  by code_simp

section \<open>Verification: gateway\<close>

text \<open>
  C4. With an empty rule list (or none) analyzeBatchWithAPI sends no request to the
  classifier and gives every unit of the batch the result with \<open>shouldFilter = false\<close>
  and method "No Filters Active"; the content script with an empty rule list leaves
  processTweets at once, sending nothing.
\<close>

theorem no_filters_no_call:
  "analyzeBatchWithAPI B fetch tweets (Some []) = (Inr (map (\<lambda>_. noFiltersResult) tweets), [])
   \<and> analyzeBatchWithAPI B fetch tweets None = (Inr (map (\<lambda>_. noFiltersResult) tweets), [])
   \<and> length (map (\<lambda>_. noFiltersResult) tweets) = length tweets
   \<and> shouldFilter noFiltersResult = JBool False
   \<and> res_method noFiltersResult = ''No Filters Active''
   \<and> processTweets B fetch chan (st\<lparr>filters := []\<rparr>) d els = (st\<lparr>filters := []\<rparr>, els, [])"
  by (simp add: analyzeBatchWithAPI_def noFiltersResult_def processTweets_def)

lemma map_idx_length: "length (map_idx f i xs) = length xs"
  by (induction xs arbitrary: i) auto

lemma batchData_length: "length (batchData es) = length es"
  by (simp add: batchData_def map_idx_length)

lemma analyze_failure:
  assumes "fs \<noteq> []"
    and "fetch (build_request tweets fs) = Inl msg
         \<or> (\<exists>r. fetch (build_request tweets fs) = Inr r \<and> \<not> resp_ok r)"
  shows "\<exists>e. analyzeBatchWithAPI B fetch tweets (Some fs) = (Inl e, [build_request tweets fs])"
  using assms by (auto simp: analyzeBatchWithAPI_def Let_def)

lemma batchErrorResult_props:
  "shouldFilter (batchErrorResult e) = JBool False \<and> res_method (batchErrorResult e) = ''Batch Error''"
  by (simp add: batchErrorResult_def)

lemma contentBatchError_props:
  "shouldFilter (contentBatchError m) = JBool False \<and> res_method (contentBatchError m) = ''Batch Error''"
  by (simp add: contentBatchError_def)

text \<open>
  C5. Let the rule list be non-empty and let the call of the classifier fail: \<open>fetch\<close>
  rejects (network failure) or the response is not \<open>ok\<close> (a status such as 429).
  Then analyzeBatchWithAPI rejects with one error after one request, the handler answers
  with one batch-error result per unit, and batchFilterContent returns, whether the
  message channel delivers or rejects, one result per batch entry, each with
  \<open>shouldFilter = false\<close> and method "Batch Error".
\<close>

theorem gateway_failure_batch_error:
  assumes "fs \<noteq> []"
    and "fetch (build_request (batchData entries) fs) = Inl msg
         \<or> (\<exists>r. fetch (build_request (batchData entries) fs) = Inr r \<and> \<not> resp_ok r)"
  shows "(\<exists>e. analyzeBatchWithAPI B fetch (batchData entries) (Some fs)
                = (Inl e, [build_request (batchData entries) fs])
              \<and> fst (batchFilterContent B fetch Delivered fs entries)
                = map (\<lambda>_. batchErrorResult e) (batchData entries))
         \<and> length (fst (batchFilterContent B fetch chan fs entries)) = length entries
         \<and> list_all (\<lambda>r. shouldFilter r = JBool False \<and> res_method r = ''Batch Error'')
              (fst (batchFilterContent B fetch chan fs entries))"
proof -
  from analyze_failure[of fs fetch "batchData entries" msg B] assms obtain e where
    e: "analyzeBatchWithAPI B fetch (batchData entries) (Some fs)
          = (Inl e, [build_request (batchData entries) fs])" by blast
  then have d: "fst (batchFilterContent B fetch Delivered fs entries)
                = map (\<lambda>_. batchErrorResult e) (batchData entries)"
    by (simp add: batchFilterContent_def on_filterBatch_def)
  have all: "list_all (\<lambda>r. shouldFilter r = JBool False \<and> res_method r = ''Batch Error'')
              (fst (batchFilterContent B fetch chan fs entries))"
  proof (cases chan)
    case Delivered
    with d show ?thesis by (simp add: list_all_iff batchErrorResult_props)
  next
    case (Rejected m)
    then show ?thesis by (simp add: batchFilterContent_def list_all_iff contentBatchError_props)
  qed
  have len: "length (fst (batchFilterContent B fetch chan fs entries)) = length entries"
  proof (cases chan)
    case Delivered
    with d show ?thesis by (simp add: batchData_length)
  next
    case (Rejected m)
    then show ?thesis by (simp add: batchFilterContent_def)
  qed
  from e d all len show ?thesis by blast
qed

theorem gateway_failure_batch_error_witness:
  "[''political content''] \<noteq> []
   \<and> \<not> resp_ok http_429
   \<and> fst (batchFilterContent (parsing_builtins None) (\<lambda>_. Inr http_429) Delivered
             [''political content''] example_entries)
       = [batchErrorResult (ApiError (JStr ''Resource exhausted'')),
          batchErrorResult (ApiError (JStr ''Resource exhausted''))]
   \<and> list_all (\<lambda>r. shouldFilter r = JBool False \<and> res_method r = ''Batch Error'')
        (fst (batchFilterContent (parsing_builtins None) (\<lambda>_. Inr http_429) Delivered
             [''political content''] example_entries))"
proof -
  have h1: "[''political content''] \<noteq> ([] :: string list)" by simp
  have nok: "\<not> resp_ok http_429" by (simp add: http_429_def)
  have h2: "(\<lambda>_. Inr http_429) (build_request (batchData example_entries) [''political content'']) = Inl ''''
     \<or> (\<exists>r. (\<lambda>_. Inr http_429) (build_request (batchData example_entries) [''political content'']) = Inr r
            \<and> \<not> resp_ok r)"
    using nok by simp
  note main = gateway_failure_batch_error[of "[''political content'']" "\<lambda>_. Inr http_429" example_entries "''''"
      "parsing_builtins None" Delivered, OF h1 h2]
  have ev: "fst (batchFilterContent (parsing_builtins None) (\<lambda>_. Inr http_429) Delivered
             [''political content''] example_entries)
       = [batchErrorResult (ApiError (JStr ''Resource exhausted'')),
          batchErrorResult (ApiError (JStr ''Resource exhausted''))]"
    by code_simp
  show ?thesis using h1 nok ev main by blast
qed


section \<open>Verification: heuristic classifier\<close>

text \<open>\<open>toLowerCase\<close> on ASCII and on a Latin-1 capital (E acute, 201, to 233).\<close>

lemma toLowerCase_example:
  "toLowerCase ''Governing Bodies'' = ''governing bodies''
   \<and> toLowerCase [char_of (201 :: nat), CHR ''X'', char_of (215 :: nat)]
       = [char_of (233 :: nat), CHR ''x'', char_of (215 :: nat)]"
  by code_simp

lemma split_space_nonempty: "split_space s \<noteq> []"
  by (induction s) (auto split: list.splits)

lemma ceil_half: "(int m \<ge> Math_ceil (of_nat n / 2)) = ((n + 1) div 2 \<le> m)"
proof -
  have "\<lceil>(of_nat n :: rat) / 2\<rceil> = int ((n + 1) div 2)"
  proof (cases "even n")
    case True
    then obtain k where "n = 2 * k" by (auto elim: evenE)
    then show ?thesis by simp
  next
    case False
    then obtain k where k: "n = 2 * k + 1" by (auto elim: oddE)
    have "\<lceil>(of_nat (2 * k + 1) :: rat) / 2\<rceil> = int k + 1"
      by (rule ceiling_unique) (simp_all add: field_simps)
    then show ?thesis using k by simp
  qed
  then show ?thesis by (simp add: Math_ceil_def)
qed

lemma matchCount_eq: "matchCount lt ws = length (filter (word_matches lt) ws)"
  by (simp add: matchCount_def)

lemma keyword_loop_find:
  "keyword_loop lt fs =
     (case find (rule_matches lt) fs of
        None \<Rightarrow> keywordsNoMatch
      | Some f \<Rightarrow> keywordsMatch f (matchCount lt (split_space (toLowerCase f)))
                   (length (split_space (toLowerCase f))))"
  by (induction fs) (simp_all add: Let_def ceil_half rule_matches_def matchCount_eq)

lemma matchCount_le: "matchCount lt ws \<le> length ws"
  by (simp add: matchCount_def)

text \<open>
  Rounding to a double keeps a number on its side of a number of the same binade that
  has a 53-bit significand. So the rounded quotient of \<open>m\<close> by \<open>n\<close> stays in
  [1/2, 1] and one hundred times it, rounded, in [50, 100].
\<close>

lemma rhe_ge: "of_int k \<le> x \<Longrightarrow> k \<le> round_half_even x"
proof -
  assume "of_int k \<le> x"
  then have "k \<le> \<lfloor>x\<rfloor>" by (simp add: le_floor_iff)
  then show ?thesis by (simp add: round_half_even_def Let_def)
qed

lemma rhe_le: "x \<le> of_int k \<Longrightarrow> round_half_even x \<le> k"
proof (cases "x = of_int k")
  case True
  then show ?thesis by (simp add: round_half_even_def Let_def)
next
  case False
  assume "x \<le> of_int k"
  with False have "x < of_int k" by simp
  then have "\<lfloor>x\<rfloor> < k" by (simp add: floor_less_iff)
  then show ?thesis by (simp add: round_half_even_def Let_def)
qed

lemma to_double_grid:
  assumes "0 < q" and "ilog2 q = e"
  shows "of_int k * 2 powi (e - 52) \<le> q \<Longrightarrow> of_int k * 2 powi (e - 52) \<le> to_double q"
    and "q \<le> of_int k * 2 powi (e - 52) \<Longrightarrow> to_double q \<le> of_int k * 2 powi (e - 52)"
proof -
  let ?u = "(2::rat) powi (e - 52)"
  have u: "0 < ?u" by simp
  have td: "to_double q = of_int (round_half_even (q / ?u)) * ?u"
    using assms by (simp add: to_double_def Let_def)
  {
    assume "of_int k * ?u \<le> q"
    with u have "of_int k \<le> q / ?u" by (simp add: pos_le_divide_eq)
    then have "k \<le> round_half_even (q / ?u)" by (rule rhe_ge)
    then have "(of_int k :: rat) \<le> of_int (round_half_even (q / ?u))" by simp
    with u show "of_int k * ?u \<le> to_double q" unfolding td by (simp add: mult_right_mono)
  }
  {
    assume "q \<le> of_int k * ?u"
    with u have "q / ?u \<le> of_int k" by (simp add: pos_divide_le_eq)
    then have "round_half_even (q / ?u) \<le> k" by (rule rhe_le)
    then have "(of_int (round_half_even (q / ?u)) :: rat) \<le> of_int k" by simp
    with u show "to_double q \<le> of_int k * ?u" unfolding td by (simp add: mult_right_mono)
  }
qed


lemma ilog2_half: "1 / 2 \<le> q \<Longrightarrow> q < 1 \<Longrightarrow> ilog2 q = - 1"
proof -
  assume a: "1 / 2 \<le> q" "q < 1"
  then have q: "0 < q" by simp
  from a q have "1 < 1 / q" "1 / q \<le> 2" by (simp_all add: field_simps)
  then have "\<lceil>1 / q\<rceil> = 2" by (intro ceiling_unique) simp_all
  moreover have "bitlen 1 = 1" by (simp add: bitlen_alt_def)
  ultimately show ?thesis using a by (simp add: ilog2_def)
qed

lemma bitlen_between: "2 ^ w \<le> k \<Longrightarrow> k < 2 ^ Suc w \<Longrightarrow> bitlen k = int (Suc w)"
proof (rule antisym)
  assume "k < 2 ^ Suc w"
  then show "bitlen k \<le> int (Suc w)" by (simp add: bitlen_le_iff_power nat_add_distrib)
next
  assume "2 ^ w \<le> k"
  then show "int (Suc w) \<le> bitlen k" by (simp add: bitlen_ge_iff_power nat_add_distrib)
qed

lemma ilog2_between: "2 ^ w \<le> q \<Longrightarrow> q < 2 ^ Suc w \<Longrightarrow> ilog2 q = int w"
proof -
  assume a: "2 ^ w \<le> q" "q < 2 ^ Suc w"
  have "(1::rat) \<le> 2 ^ w" by simp
  with a have q1: "1 \<le> q" by linarith
  have "(2::int) ^ w \<le> \<lfloor>q\<rfloor>" using a(1) by (simp add: le_floor_iff)
  moreover have "\<lfloor>q\<rfloor> < (2::int) ^ Suc w" using a(2) by (simp add: floor_less_iff)
  ultimately have "bitlen \<lfloor>q\<rfloor> = int (Suc w)" by (rule bitlen_between)
  with q1 show ?thesis by (simp add: ilog2_def)
qed

lemma to_double_unit: "1 / 2 \<le> x \<Longrightarrow> x \<le> 1 \<Longrightarrow> 1 / 2 \<le> to_double x \<and> to_double x \<le> 1"
proof (cases "x = 1")
  case True
  have "to_double 1 = 1" by code_simp
  with True show ?thesis by simp
next
  case False
  assume a: "1 / 2 \<le> x" "x \<le> 1"
  with False have lt: "x < 1" by simp
  from a have pos: "0 < x" by simp
  have e: "ilog2 x = - 1" using a(1) lt by (rule ilog2_half)
  have lo: "of_int (2 ^ 52) * 2 powi (- 1 - 52) = (1 / 2 :: rat)" by code_simp
  have hi: "of_int (2 ^ 53) * 2 powi (- 1 - 52) = (1 :: rat)" by code_simp
  from to_double_grid(1)[OF pos e, of "2 ^ 52"] a(1) lo have "1 / 2 \<le> to_double x" by simp
  moreover from to_double_grid(2)[OF pos e, of "2 ^ 53"] a(2) hi have "to_double x \<le> 1" by simp
  ultimately show ?thesis by simp
qed

lemma to_double_percent: "50 \<le> y \<Longrightarrow> y \<le> 100 \<Longrightarrow> 50 \<le> to_double y \<and> to_double y \<le> 100"
proof (cases "y < 64")
  case True
  assume a: "50 \<le> y" "y \<le> 100"
  then have pos: "0 < y" by simp
  have e: "ilog2 y = int 5" using a(1) True by (intro ilog2_between) simp_all
  have lo: "of_int (50 * 2 ^ 47) * 2 powi (int 5 - 52) = (50 :: rat)" by code_simp
  have hi: "of_int (2 ^ 53) * 2 powi (int 5 - 52) = (64 :: rat)" by code_simp
  from to_double_grid(1)[OF pos e, of "50 * 2 ^ 47"] a(1) lo have "50 \<le> to_double y" by simp
  moreover from to_double_grid(2)[OF pos e, of "2 ^ 53"] True hi have "to_double y \<le> 64" by simp
  ultimately show ?thesis by simp
next
  case False
  assume a: "50 \<le> y" "y \<le> 100"
  then have pos: "0 < y" by simp
  have e: "ilog2 y = int 6" using a(2) False by (intro ilog2_between) simp_all
  have lo: "of_int (2 ^ 52) * 2 powi (int 6 - 52) = (64 :: rat)" by code_simp
  have hi: "of_int (100 * 2 ^ 46) * 2 powi (int 6 - 52) = (100 :: rat)" by code_simp
  from to_double_grid(1)[OF pos e, of "2 ^ 52"] False lo have "64 \<le> to_double y" by simp
  moreover from to_double_grid(2)[OF pos e, of "100 * 2 ^ 46"] a(2) hi have "to_double y \<le> 100" by simp
  ultimately show ?thesis by simp
qed

lemma toFixed0_bounds:
  assumes "(n + 1) div 2 \<le> m" and "m \<le> n" and "0 < n"
  shows "50 \<le> toFixed0 (to_double (to_double (of_nat m / of_nat n) * 100))
       \<and> toFixed0 (to_double (to_double (of_nat m / of_nat n) * 100)) \<le> 100"
proof -
  let ?x = "(of_nat m :: rat) / of_nat n"
  from assms(1) have "n \<le> 2 * m" by linarith
  then have "(of_nat n :: rat) \<le> 2 * of_nat m" by (metis of_nat_le_iff of_nat_mult of_nat_numeral)
  with assms(3) have lo: "1 / 2 \<le> ?x" by (simp add: field_simps)
  from assms(2,3) have hi: "?x \<le> 1" by (simp add: field_simps)
  from to_double_unit[OF lo hi] have "50 \<le> to_double ?x * 100" "to_double ?x * 100 \<le> 100" by simp_all
  from to_double_percent[OF this] have z: "50 \<le> to_double (to_double ?x * 100)"
     "to_double (to_double ?x * 100) \<le> 100" by simp_all
  have "50 \<le> \<lfloor>to_double (to_double ?x * 100) + 1 / 2\<rfloor>" using z(1) by (simp add: le_floor_iff)
  moreover have "\<lfloor>to_double (to_double ?x * 100) + 1 / 2\<rfloor> \<le> 100" using z(2) by (simp add: floor_le_iff)
  ultimately show ?thesis by (simp add: toFixed0_def)
qed

text \<open>
  The rounding shows: 23 of 40 words are 57.49999999999999 in doubles and print as 57,
  where the exact quotient gives 57.5 and would print as 58.
\<close>

lemma double_rounding_example:
  "toFixed0 (to_double (to_double (23 / 40) * 100)) = 57 \<and> toFixed0 (23 / 40 * 100) = 58"
  by code_simp

text \<open>
  In the example of the specification the word "political" matches through the synonym
  table (the text contains "congress" and "voting") and the word "content" does not
  match, so one of two words matches.
\<close>

lemma congress_example_words:
  "word_matches (toLowerCase ''Congress passed a new voting bill today'') ''political''
   \<and> \<not> word_matches (toLowerCase ''Congress passed a new voting bill today'') ''content''
   \<and> split_space (toLowerCase ''political content'') = [''political'', ''content'']"
  by code_simp

text \<open>
  The second loop of semanticMatch, over the stem expressions, never decides: each of its
  four keys is a key of the synonym table, so a filter word that contains one of them has
  already left the function in the first loop. semanticMatch is the synonym lookup.
\<close>

lemma synonym_lookup_None:
  "synonym_lookup tbl txt w = None \<Longrightarrow> (k, ws) \<in> set tbl \<Longrightarrow> \<not> js_includes w k"
  by (induction tbl) (auto split: if_splits)

lemma semanticMatch_synonyms_only:
  "semanticMatch txt w = (case synonym_lookup synonyms txt w of Some b \<Rightarrow> b | None \<Rightarrow> False)"
proof (cases "synonym_lookup synonyms txt w")
  case (Some b)
  then show ?thesis by (simp add: semanticMatch_def)
next
  case None
  have "\<not> js_includes w ''political''"
    by (rule synonym_lookup_None[OF None, of _ "snd (synonyms ! 0)"]) (simp add: synonyms_def)
  moreover have "\<not> js_includes w ''crypto''"
    by (rule synonym_lookup_None[OF None, of _ "snd (synonyms ! 2)"]) (simp add: synonyms_def)
  moreover have "\<not> js_includes w ''sports''"
    by (rule synonym_lookup_None[OF None, of _ "snd (synonyms ! 5)"]) (simp add: synonyms_def)
  moreover have "\<not> js_includes w ''negative''"
    by (rule synonym_lookup_None[OF None, of _ "snd (synonyms ! 8)"]) (simp add: synonyms_def)
  ultimately show ?thesis using None by (simp add: semanticMatch_def partialMatches_def)
qed

text \<open>
  keywordFilterContent answers with the first rule, in declaration order, for which the
  condition of its loop holds, and with the no-match result when there is none: the
  threshold \<open>ceil(wordCount / 2)\<close> and the order of the rules are as the specification
  says, over the callback of the code.
\<close>

lemma keyword_first_matching_rule:
  "keywordFilterContent fs txt =
     (case find (rule_matches (toLowerCase txt)) fs of
        None \<Rightarrow> keywordsNoMatch
      | Some f \<Rightarrow> keywordsMatch f (matchCount (toLowerCase txt) (split_space (toLowerCase f)))
                   (length (split_space (toLowerCase f))))
   \<and> (shouldFilter (keywordFilterContent fs txt) = JBool True)
       = list_ex (rule_matches (toLowerCase txt)) fs
   \<and> shouldFilter (keywordFilterContent [''political content'']
         ''Congress passed a new voting bill today'') = JBool True"
proof -
  let ?lt = "toLowerCase txt"
  have eq: "keywordFilterContent fs txt =
     (case find (rule_matches ?lt) fs of
        None \<Rightarrow> keywordsNoMatch
      | Some f \<Rightarrow> keywordsMatch f (matchCount ?lt (split_space (toLowerCase f)))
                   (length (split_space (toLowerCase f))))"
    by (simp add: keywordFilterContent_def keyword_loop_find)
  have iff: "(shouldFilter (keywordFilterContent fs txt) = JBool True) = list_ex (rule_matches ?lt) fs"
  proof (cases "find (rule_matches ?lt) fs")
    case None
    then have "\<not> list_ex (rule_matches ?lt) fs" by (simp add: find_None_iff list_ex_iff)
    with None eq show ?thesis by (simp add: keywordsNoMatch_def)
  next
    case (Some f)
    then have "list_ex (rule_matches ?lt) fs" by (auto simp: find_Some_iff list_ex_iff)
    with Some eq show ?thesis by (simp add: keywordsMatch_def)
  qed
  have ex: "shouldFilter (keywordFilterContent [''political content'']
         ''Congress passed a new voting bill today'') = JBool True"
    by code_simp
  from eq iff ex show ?thesis by blast
qed

text \<open>
  The callback of the code against the word match of the specification: the code matches
  a word only where the specification does, and the specification matches in addition
  through the stem expressions, which the code never reaches.
\<close>

lemma spec_word_matches_code:
  "spec_word_matches lt w = (word_matches lt w \<or> stem_match lt w)"
proof -
  have "semanticMatch lt w = synonym_match lt w"
    by (cases "synonym_lookup synonyms lt w")
       (simp_all add: semanticMatch_synonyms_only synonym_match_def)
  then show ?thesis by (auto simp: spec_word_matches_def word_matches_def)
qed

text \<open>
  C8. A rule is to match iff at least \<open>ceil(wordCount / 2)\<close> of its lowercase words
  match the lowercase text verbatim or through the synonym and stem expansion. The
  threshold and the order of the rules are as claimed
  (\<open>keyword_first_matching_rule\<close>), and the Congress example gives
  \<open>shouldFilter = true\<close>; the stem expansion is not: for the text "Governing bodies"
  and the single rule "political" the stem expression of "political" matches
  ("governing"), so the rule matches in the words of the specification, and
  keywordFilterContent answers \<open>shouldFilter = false\<close>, semanticMatch having returned
  from its first loop.
\<close>

theorem stem_expansion_not_reached:
  "regex_match [''politic'', ''govern'', ''election'', ''campaign''] (toLowerCase ''Governing bodies'')
   \<and> stem_match (toLowerCase ''Governing bodies'') ''political''
   \<and> spec_rule_matches (toLowerCase ''Governing bodies'') ''political''
   \<and> \<not> semanticMatch (toLowerCase ''Governing bodies'') ''political''
   \<and> \<not> rule_matches (toLowerCase ''Governing bodies'') ''political''
   \<and> keywordFilterContent [''political''] ''Governing bodies'' = keywordsNoMatch
   \<and> shouldFilter (keywordFilterContent [''political''] ''Governing bodies'') = JBool False
   \<and> shouldFilter (keywordFilterContent [''political content'']
         ''Congress passed a new voting bill today'') = JBool True"
  by code_simp

text \<open>
  C10. Whenever keywordFilterContent answers \<open>shouldFilter = true\<close>, the confidence it
  reports is the percentage of an integer between 50 and 100: the rule that matched has
  at least one word, at least half of its words matched and at most all of them.
\<close>

theorem keyword_confidence_range:
  assumes "shouldFilter (keywordFilterContent fs txt) = JBool True"
  shows "\<exists>q. confidence (keywordFilterContent fs txt) = Percent (Fin (of_int q))
             \<and> 50 \<le> q \<and> q \<le> 100
             \<and> confidence_text (confidence (keywordFilterContent fs txt)) = Some (show_int q @ ''%'')"
proof -
  let ?lt = "toLowerCase txt"
  show ?thesis
  proof (cases "find (rule_matches ?lt) fs")
    case None
    then have "keywordFilterContent fs txt = keywordsNoMatch"
      by (simp add: keywordFilterContent_def keyword_loop_find)
    with assms show ?thesis by (simp add: keywordsNoMatch_def)
  next
    case (Some f)
    let ?ws = "split_space (toLowerCase f)"
    let ?q = "toFixed0 (to_double (to_double (of_nat (matchCount ?lt ?ws) / of_nat (length ?ws)) * 100))"
    from Some have r: "keywordFilterContent fs txt = keywordsMatch f (matchCount ?lt ?ws) (length ?ws)"
      by (simp add: keywordFilterContent_def keyword_loop_find)
    from Some have "rule_matches ?lt f" by (auto simp: find_Some_iff)
    then have a: "(length ?ws + 1) div 2 \<le> matchCount ?lt ?ws"
      by (simp add: rule_matches_def Let_def matchCount_eq)
    have b: "0 < length ?ws" using split_space_nonempty[of "toLowerCase f"] by simp
    have c: "confidence (keywordFilterContent fs txt) = Percent (Fin (of_int ?q))"
      using r by (simp add: keywordsMatch_def)
    have t: "confidence_text (Percent (Fin (of_int ?q))) = Some (show_int ?q @ ''%'')"
      by (simp del: show_int.simps)
    from toFixed0_bounds[OF a matchCount_le b] c t show ?thesis by metis
  qed
qed

theorem keyword_confidence_range_witness:
  "shouldFilter (keywordFilterContent [''political content'']
       ''Congress passed a new voting bill today'') = JBool True
   \<and> (\<exists>q. confidence (keywordFilterContent [''political content'']
              ''Congress passed a new voting bill today'') = Percent (Fin (of_int q))
          \<and> 50 \<le> q \<and> q \<le> 100)
   \<and> confidence (keywordFilterContent [''political content'']
              ''Congress passed a new voting bill today'') = Percent (Fin 50)"
proof -
  have h: "shouldFilter (keywordFilterContent [''political content'']
       ''Congress passed a new voting bill today'') = JBool True"
    by code_simp
  have v: "confidence (keywordFilterContent [''political content'']
              ''Congress passed a new voting bill today'') = Percent (Fin 50)"
    by code_simp
  from keyword_confidence_range[OF h] h v show ?thesis by blast
qed

section \<open>Verification: applying the filter\<close>

lemma applyFilter_filtered: "''filtered-content'' \<in> set (classList (applyFilter e r c m))"
  by (simp add: applyFilter_def classList_add_def)

text \<open>
  C9. applyFilter is idempotent: a second call on a unit, with whatever reason,
  confidence and method, returns the unit as the first call left it. After the first
  call the unit carries the class \<open>filtered-content\<close>, and the two calls together
  append one overlay to a unit that was not filtered before and none to one that was.
\<close>

theorem applyFilter_idempotent:
  "applyFilter (applyFilter e r c m) r' c' m' = applyFilter e r c m
   \<and> ''filtered-content'' \<in> set (classList (applyFilter e r c m))
   \<and> length (overlays (applyFilter (applyFilter e r c m) r' c' m'))
       = length (overlays e) + (if ''filtered-content'' \<in> set (classList e) then 0 else 1)"
proof -
  have f: "''filtered-content'' \<in> set (classList (applyFilter e r c m))"
    by (rule applyFilter_filtered)
  then have i: "applyFilter (applyFilter e r c m) r' c' m' = applyFilter e r c m"
    by (simp add: applyFilter_def[of "applyFilter e r c m"])
  have l: "length (overlays (applyFilter e r c m))
       = length (overlays e) + (if ''filtered-content'' \<in> set (classList e) then 0 else 1)"
    by (simp add: applyFilter_def)
  from f i l show ?thesis by simp
qed

lemma applyFilter_example:
  "overlays (applyFilter (applyFilter fresh_element (JStr ''spam'') (Percent (Fin 90)) ''Keywords'')
        (JStr ''other'') (Percent (Fin 10)) ''Vision'')
   = [\<lparr> ov_className = ''filter-overlay'', ov_isVisualFilter = False, ov_reason = JStr ''spam'',
        ov_confidence = Percent (Fin 90), ov_method = ''Keywords'', ov_display = [] \<rparr>]"
  by code_simp

section \<open>Verification: scan round\<close>

lemma scan_elements_spec:
  "\<exists>new. scan_elements d els (b, s) = (b @ new, s \<union> fst ` set new)
     \<and> (\<forall>e\<in>set new. fst e \<notin> s \<and> fst e \<in> set els \<and> fst (snd e) = extractTweetText d (fst e) \<and> fst (snd e) \<noteq> [])"
proof (induction els arbitrary: b s)
  case Nil
  show ?case by (rule exI[of _ "[]"]) simp
next
  case (Cons el els)
  show ?case
  proof (cases "el \<in> s \<or> extractTweetText d el = []")
    case True
    from Cons.IH[of b s] obtain new where
      n: "scan_elements d els (b, s) = (b @ new, s \<union> fst ` set new)"
      "\<forall>e\<in>set new. fst e \<notin> s \<and> fst e \<in> set els \<and> fst (snd e) = extractTweetText d (fst e) \<and> fst (snd e) \<noteq> []"
      by blast
    show ?thesis
      by (rule exI[of _ new]) (use True n in \<open>auto simp: Let_def\<close>)
  next
    case False
    let ?entry = "(el, extractTweetText d el, img_srcs d el)"
    from Cons.IH[of "b @ [?entry]" "insert el s"] obtain new where
      n: "scan_elements d els (b @ [?entry], insert el s) = ((b @ [?entry]) @ new, insert el s \<union> fst ` set new)"
      "\<forall>e\<in>set new. fst e \<notin> insert el s \<and> fst e \<in> set els \<and> fst (snd e) = extractTweetText d (fst e) \<and> fst (snd e) \<noteq> []"
      by blast
    show ?thesis
      by (rule exI[of _ "?entry # new"]) (use False n in \<open>auto simp: Let_def\<close>)
  qed
qed

lemma scan_elements_spec2:
  "\<exists>new. scan_elements d els (b, s) = (b @ new, s \<union> fst ` set new) \<and> list_all (entry_ok d s) new"
proof -
  from scan_elements_spec[of d els b s] obtain new where
    "scan_elements d els (b, s) = (b @ new, s \<union> fst ` set new)"
    "\<forall>e\<in>set new. fst e \<notin> s \<and> fst e \<in> set els \<and> fst (snd e) = extractTweetText d (fst e) \<and> fst (snd e) \<noteq> []"
    by blast
  then show ?thesis by (intro exI[of _ new]) (auto simp: list_all_iff entry_ok_def)
qed

lemma scan_selectors_spec:
  "\<exists>new. scan_selectors d sels (b, s) = (b @ new, s \<union> fst ` set new) \<and> list_all (entry_ok d s) new"
proof (induction sels arbitrary: b s)
  case Nil
  show ?case by (rule exI[of _ "[]"]) simp
next
  case (Cons sel sels)
  from scan_elements_spec2[of d "querySelectorAll d sel" b s] obtain n1 where
    n1: "scan_elements d (querySelectorAll d sel) (b, s) = (b @ n1, s \<union> fst ` set n1)"
        "list_all (entry_ok d s) n1" by blast
  show ?case
  proof (cases "length (b @ n1) > 0")
    case True
    show ?thesis by (rule exI[of _ n1]) (use True n1 in \<open>simp add: Let_def\<close>)
  next
    case False
    then have e: "b = []" "n1 = []" by simp_all
    from Cons.IH[of b s] obtain n2 where
      n2: "scan_selectors d sels (b, s) = (b @ n2, s \<union> fst ` set n2)" "list_all (entry_ok d s) n2"
      by blast
    show ?thesis by (rule exI[of _ n2]) (use e n1 n2 in \<open>simp add: Let_def\<close>)
  qed
qed

lemma scan_round_spec:
  "snd (scan_round d seen) = seen \<union> fst ` set (fst (scan_round d seen))
   \<and> list_all (entry_ok d seen) (fst (scan_round d seen))"
proof -
  from scan_selectors_spec[of d tweetSelectors "[]" seen] obtain new where
    n: "scan_selectors d tweetSelectors ([], seen) = ([] @ new, seen \<union> fst ` set new)"
       "list_all (entry_ok d seen) new" by blast
  then have "scan_round d seen = (new, seen \<union> fst ` set new)" by (simp add: scan_round_def)
  with n(2) show ?thesis by simp
qed

lemma scan_elements_mono: "s \<subseteq> snd (scan_elements d els (b, s))"
  using scan_elements_spec2[of d els b s] by auto

lemma scan_selectors_mono: "s \<subseteq> snd (scan_selectors d sels (b, s))"
  using scan_selectors_spec[of d sels b s] by auto

lemma scan_elements_complete:
  "el \<in> set els \<Longrightarrow> extractTweetText d el \<noteq> [] \<Longrightarrow> el \<in> snd (scan_elements d els (b, s))"
proof (induction els arbitrary: b s)
  case Nil
  then show ?case by simp
next
  case (Cons x xs)
  show ?case
  proof (cases "el = x")
    case True
    show ?thesis
    proof (cases "x \<in> s")
      case in_s: True
      have "s \<subseteq> snd (scan_elements d (x # xs) (b, s))" by (rule scan_elements_mono)
      with in_s True show ?thesis by blast
    next
      case False
      let ?b = "b @ [(x, extractTweetText d x, img_srcs d x)]"
      have "insert x s \<subseteq> snd (scan_elements d xs (?b, insert x s))" by (rule scan_elements_mono)
      with False True Cons.prems(2) show ?thesis by (auto simp: Let_def)
    qed
  next
    case False
    with Cons.prems(1) have m: "el \<in> set xs" by simp
    from Cons.IH[OF m Cons.prems(2)] show ?thesis by (simp add: Let_def)
  qed
qed

lemma scan_selectors_complete:
  "el \<in> set (visited_in d sels (b, s)) \<Longrightarrow> extractTweetText d el \<noteq> [] \<Longrightarrow>
   el \<in> snd (scan_selectors d sels (b, s))"
proof (induction sels arbitrary: b s)
  case Nil
  then show ?case by simp
next
  case (Cons sel sels)
  obtain b' s' where st': "scan_elements d (querySelectorAll d sel) (b, s) = (b', s')"
    by (cases "scan_elements d (querySelectorAll d sel) (b, s)")
  show ?case
  proof (cases "el \<in> set (querySelectorAll d sel)")
    case True
    from scan_elements_complete[OF True Cons.prems(2), of b s] st' have el: "el \<in> s'" by simp
    have "s' \<subseteq> snd (scan_selectors d sels (b', s'))" by (rule scan_selectors_mono)
    with el st' show ?thesis by (auto simp: Let_def)
  next
    case False
    with Cons.prems(1) st' have nb: "\<not> length b' > 0" and v: "el \<in> set (visited_in d sels (b', s'))"
      by (auto simp: Let_def split: if_splits)
    from Cons.IH[OF v Cons.prems(2)] nb st' show ?thesis by (simp add: Let_def)
  qed
qed

lemma scan_round_complete:
  "el \<in> set (visited_units d seen) \<Longrightarrow> extractTweetText d el \<noteq> [] \<Longrightarrow>
   el \<in> snd (scan_round d seen)"
  using scan_selectors_complete[of el d tweetSelectors "[]" seen]
  by (simp add: visited_units_def scan_round_def)

lemma first_selector_visited:
  "set (querySelectorAll d Sel_testid_tweet) \<subseteq> set (visited_units d seen)"
  by (simp add: visited_units_def tweetSelectors_def Let_def)

text \<open>
  C2, as the code has it. A scan round visits the nodes of the first selector and of
  every further selector it reaches. A visited node that was not processed before is
  marked (added to the processed set) exactly when non-empty text is extracted from it,
  and it is then an entry of the batch: the round adds to the processed set exactly the
  nodes of the entries it enqueues, every entry is a node that was not processed before
  with its non-empty extracted text, and every visited node with non-empty text is in the
  processed set after the round. A node whose extracted text is empty is skipped before
  it is added: it is not in the processed set after the round.
\<close>

theorem scan_marks_exactly_text_units:
  "snd (scan_round d seen) = seen \<union> fst ` set (fst (scan_round d seen))
   \<and> (\<forall>e \<in> set (fst (scan_round d seen)).
         fst e \<notin> seen \<and> fst (snd e) = extractTweetText d (fst e) \<and> fst (snd e) \<noteq> [])
   \<and> set (querySelectorAll d Sel_testid_tweet) \<subseteq> set (visited_units d seen)
   \<and> (\<forall>el \<in> set (visited_units d seen).
         (el \<in> snd (scan_round d seen)) = (el \<in> seen \<or> extractTweetText d el \<noteq> []))
   \<and> (\<forall>el \<in> set (visited_units d seen). el \<notin> seen \<longrightarrow>
         (el \<in> fst ` set (fst (scan_round d seen))) = (extractTweetText d el \<noteq> []))
   \<and> (el \<notin> seen \<and> extractTweetText d el = [] \<longrightarrow> el \<notin> snd (scan_round d seen))"
proof -
  note s = scan_round_spec[of d seen]
  have a: "snd (scan_round d seen) = seen \<union> fst ` set (fst (scan_round d seen))" using s by blast
  have b: "\<forall>e \<in> set (fst (scan_round d seen)).
         fst e \<notin> seen \<and> fst (snd e) = extractTweetText d (fst e) \<and> fst (snd e) \<noteq> []"
    using s by (auto simp: list_all_iff entry_ok_def)
  have enq: "x \<in> fst ` set (fst (scan_round d seen)) \<Longrightarrow> x \<notin> seen \<and> extractTweetText d x \<noteq> []" for x
    using b by auto
  have c: "el \<notin> seen \<and> extractTweetText d el = [] \<longrightarrow> el \<notin> snd (scan_round d seen)"
    using a enq by blast
  have v: "set (querySelectorAll d Sel_testid_tweet) \<subseteq> set (visited_units d seen)"
    by (rule first_selector_visited)
  have m: "\<forall>x \<in> set (visited_units d seen).
         (x \<in> snd (scan_round d seen)) = (x \<in> seen \<or> extractTweetText d x \<noteq> [])"
  proof
    fix x assume x: "x \<in> set (visited_units d seen)"
    show "(x \<in> snd (scan_round d seen)) = (x \<in> seen \<or> extractTweetText d x \<noteq> [])"
    proof
      assume "x \<in> snd (scan_round d seen)"
      with a enq show "x \<in> seen \<or> extractTweetText d x \<noteq> []" by blast
    next
      assume "x \<in> seen \<or> extractTweetText d x \<noteq> []"
      then show "x \<in> snd (scan_round d seen)"
      proof
        assume "x \<in> seen"
        with a show ?thesis by blast
      next
        assume "extractTweetText d x \<noteq> []"
        with x show ?thesis by (rule scan_round_complete)
      qed
    qed
  qed
  have q: "\<forall>x \<in> set (visited_units d seen). x \<notin> seen \<longrightarrow>
         (x \<in> fst ` set (fst (scan_round d seen))) = (extractTweetText d x \<noteq> [])"
    using m a enq by blast
  from a b v m q c show ?thesis by blast
qed

theorem scan_marks_exactly_text_units_witness:
  "2 \<notin> ({} :: nat set)
   \<and> extractTweetText example_document 2 = []
   \<and> 2 \<notin> snd (scan_round example_document {})
   \<and> visited_units example_document {} = [1, 2]
   \<and> extractTweetText example_document 1 \<noteq> []
   \<and> 1 \<in> snd (scan_round example_document {})
   \<and> fst (scan_round example_document {}) = [(1, ''Congress passed a new voting bill today'', [])]
   \<and> snd (scan_round example_document {}) = {1}"
proof -
  have h: "2 \<notin> ({} :: nat set) \<and> extractTweetText example_document 2 = []" by code_simp
  have t: "extractTweetText example_document 1 \<noteq> []" by code_simp
  have vis: "visited_units example_document {} = [1, 2]" by code_simp
  have f: "fst (scan_round example_document {}) = [(1, ''Congress passed a new voting bill today'', [])]"
    by code_simp
  note main = scan_marks_exactly_text_units[of example_document "{}" 2]
  from main h have n: "2 \<notin> snd (scan_round example_document {})" by blast
  from main f have s: "snd (scan_round example_document {}) = {1}" by simp
  from main vis t have o: "1 \<in> snd (scan_round example_document {})" by simp
  from h n vis t o f s show ?thesis by blast
qed

text \<open>
  C2 as stated fails: node 2 is visited in the round, no text is extracted from it, and it
  is not marked; a later round, when the node has text, visits it again and enqueues it.
\<close>

theorem scan_empty_text_counterexample:
  "2 \<in> set (querySelectorAll example_document Sel_testid_tweet)
   \<and> extractTweetText example_document 2 = []
   \<and> 2 \<notin> snd (scan_round example_document {})
   \<and> fst (scan_round example_document_later (snd (scan_round example_document {})))
       = [(2, ''late text'', [])]"
  by code_simp

section \<open>Verification: failed batch in the content script\<close>

lemma apply_results_unfiltered:
  "list_all (\<lambda>r. \<not> truthy (shouldFilter r)) rs \<Longrightarrow> apply_results els es rs = els"
  by (induction els es rs rule: apply_results.induct) auto

lemma failed_batch_results:
  assumes "fs \<noteq> []"
    and "chan = Rejected m
         \<or> fetch (build_request (batchData entries) fs) = Inl msg
         \<or> (\<exists>r. fetch (build_request (batchData entries) fs) = Inr r \<and> \<not> resp_ok r)"
  shows "list_all (\<lambda>r. shouldFilter r = JBool False \<and> res_method r = ''Batch Error'')
           (fst (batchFilterContent B fetch chan fs entries))"
proof (cases chan)
  case (Rejected m')
  then show ?thesis by (simp add: batchFilterContent_def list_all_iff contentBatchError_props)
next
  case Delivered
  with assms(2) have "fetch (build_request (batchData entries) fs) = Inl msg
         \<or> (\<exists>r. fetch (build_request (batchData entries) fs) = Inr r \<and> \<not> resp_ok r)" by simp
  with analyze_failure[of fs fetch "batchData entries" msg B] assms(1) obtain e where
    "analyzeBatchWithAPI B fetch (batchData entries) (Some fs)
          = (Inl e, [build_request (batchData entries) fs])" by blast
  with Delivered show ?thesis
    by (simp add: batchFilterContent_def on_filterBatch_def list_all_iff batchErrorResult_props)
qed

text \<open>
  C3, as the code has it. Let the rule list be non-empty and let the call for the batch
  fail (the message is rejected, \<open>fetch\<close> rejects, or the response is not \<open>ok\<close>).
  Then the heuristic classifier is not consulted: every unit of the batch gets the
  default result with \<open>shouldFilter = false\<close> and method "Batch Error", and
  processTweets leaves every node of the page as it was (no class, no style, no overlay
  is added), so no unit of the batch is filtered.
\<close>

theorem failed_batch_not_filtered:
  assumes "filters st \<noteq> []"
    and "chan = Rejected m
         \<or> fetch (build_request (batchData (fst (scan_round d (processedTweets st)))) (filters st)) = Inl msg
         \<or> (\<exists>r. fetch (build_request (batchData (fst (scan_round d (processedTweets st)))) (filters st)) = Inr r
                \<and> \<not> resp_ok r)"
  shows "fst (snd (processTweets B fetch chan st d els)) = els
         \<and> list_all (\<lambda>r. shouldFilter r = JBool False \<and> res_method r = ''Batch Error'')
             (fst (batchFilterContent B fetch chan (filters st) (fst (scan_round d (processedTweets st)))))"
proof -
  let ?entries = "fst (scan_round d (processedTweets st))"
  let ?rs = "fst (batchFilterContent B fetch chan (filters st) ?entries)"
  have all: "list_all (\<lambda>r. shouldFilter r = JBool False \<and> res_method r = ''Batch Error'') ?rs"
    using failed_batch_results[of "filters st" chan m fetch ?entries msg B] assms by blast
  then have "list_all (\<lambda>r. \<not> truthy (shouldFilter r)) ?rs" by (auto simp: list_all_iff)
  then have ap: "apply_results els ?entries ?rs = els" by (rule apply_results_unfiltered)
  have "fst (snd (processTweets B fetch chan st d els)) = els"
    using assms(1) ap by (auto simp: processTweets_def Let_def split: prod.splits)
  with all show ?thesis by simp
qed

theorem failed_batch_not_filtered_witness:
  "filters example_state \<noteq> []
   \<and> \<not> resp_ok http_429
   \<and> fst (snd (processTweets (parsing_builtins None) (\<lambda>_. Inr http_429) Delivered
                 example_state example_document example_views)) = example_views"
proof -
  have h1: "filters example_state \<noteq> []" by (simp add: example_state_def)
  have nok: "\<not> resp_ok http_429" by (simp add: http_429_def)
  let ?req = "build_request (batchData (fst (scan_round example_document (processedTweets example_state))))
                (filters example_state)"
  have h2: "Delivered = Rejected None
     \<or> (\<lambda>_. Inr http_429) ?req = Inl ''''
     \<or> (\<exists>r. (\<lambda>_. Inr http_429) ?req = Inr r \<and> \<not> resp_ok r)"
    using nok by simp
  note main = failed_batch_not_filtered[of example_state Delivered None "\<lambda>_. Inr http_429"
      example_document "''''" "parsing_builtins None" example_views, OF h1 h2]
  from main h1 nok show ?thesis by blast
qed

text \<open>
  C3 as stated fails: the text of node 1 matches the active rule heuristically
  (keywordFilterContent answers \<open>shouldFilter = true\<close>), the call for its batch fails
  with status 429, and the unit gets \<open>shouldFilter = false\<close> and stays unfiltered.
\<close>

theorem heuristic_not_substituted_counterexample:
  "shouldFilter (keywordFilterContent (filters example_state)
       ''Congress passed a new voting bill today'') = JBool True
   \<and> fst (scan_round example_document (processedTweets example_state))
       = [(1, ''Congress passed a new voting bill today'', [])]
   \<and> map shouldFilter (fst (batchFilterContent (parsing_builtins None) (\<lambda>_. Inr http_429) Delivered
         (filters example_state) [(1, ''Congress passed a new voting bill today'', [])])) = [JBool False]
   \<and> classList (fst (snd (processTweets (parsing_builtins None) (\<lambda>_. Inr http_429) Delivered
         example_state example_document example_views)) 1) = [''tweet'']"
  by code_simp


end
